theory Spec2Isabelle
  imports Complex_Main "HOL-Library.Log_Nat"
begin

section \<open>UnraWheel: the wheel-select element of unrawheel.js\<close>

text \<open>
  The model follows \<^verbatim>\<open>src/unrawheel.js\<close>: the private fields of the class
  \<^verbatim>\<open>UnraWheel\<close> are the fields of the record \<open>wheel\<close>, every method and event callback is
  a function that takes the wheel and returns the wheel it leaves behind, and every
  \<^verbatim>\<open>throw\<close> (and every TypeError the engine raises on a read through
  \<^verbatim>\<open>undefined\<close> or \<^verbatim>\<open>null\<close>) is an \<open>Inl\<close> result that comes with the wheel as it was
  mutated up to the raise.
\<close>

subsection \<open>Numbers\<close>

text \<open>
  Section counts and indices are integer-valued JavaScript numbers (far below \<open>2^53\<close>) and
  are modelled as \<open>int\<close>. Angles and rotations are IEEE-754 binary64 values: a finite
  double is the rational it denotes, and every arithmetic operation rounds its exact result to
  the nearest double, ties to even (\<open>fl\<close>). The exponent range is not bounded in the
  model (no overflow to Infinity, no subnormals); the magnitudes of this program stay far
  inside the normal range. Division by zero gives Infinity in JavaScript and \<open>0\<close> in HOL:
  the only variable divisor below is the section count, which is at least 2 where
  \<^verbatim>\<open>#setData\<close> divides by it (\<open>setData_sectionCount_ge2\<close>) and on every wheel that has
  data, where the hover callback divides by it (\<open>wheel_inv_sectionCount\<close>).
\<close>

definition pow2 :: "int \<Rightarrow> rat" where
  "pow2 e = (if 0 \<le> e then 2 ^ nat e else 1 / 2 ^ nat (- e))"

definition roundTiesToEven :: "rat \<Rightarrow> int" where
  "roundTiesToEven x =
     (let f = \<lfloor>x\<rfloor>; r = x - of_int f
      in if r < 1 / 2 then f else if 1 / 2 < r then f + 1 else if even f then f else f + 1)"

definition binade :: "rat \<Rightarrow> int" where
  \<comment> \<open>for \<open>x > 0\<close>, the \<open>e\<close> with \<open>2^e \<le> x < 2^(e+1)\<close>\<close>
  "binade x = (case quotient_of x of (a, b) \<Rightarrow>
      let k = bitlen a - bitlen b in if pow2 k \<le> x then k else k - 1)"

definition fl :: "rat \<Rightarrow> rat" where
  \<comment> \<open>the double nearest to \<open>x\<close>: 53 significant bits, ties to even\<close>
  "fl x = (if x = 0 then 0
           else let e = binade \<bar>x\<bar> - 52; m = roundTiesToEven (\<bar>x\<bar> / pow2 e)
                in sgn x * of_int m * pow2 e)"

definition num_add :: "rat \<Rightarrow> rat \<Rightarrow> rat" where
  "num_add a b = fl (a + b)"

definition num_mul :: "rat \<Rightarrow> rat \<Rightarrow> rat" where
  "num_mul a b = fl (a * b)"

definition num_div :: "rat \<Rightarrow> rat \<Rightarrow> rat" where
  "num_div a b = fl (a / b)"

definition Math_PI :: rat where
  \<comment> \<open>the double \<^verbatim>\<open>0x400921FB54442D18\<close>\<close>
  "Math_PI = 884279719003555 / 281474976710656"

subsection \<open>Values, sections and errors\<close>

text \<open>
  A JavaScript value as \<^verbatim>\<open>JSON.parse\<close> or a caller can hand it to \<^verbatim>\<open>setSections\<close>.
  An object is the list of its own properties, each name once. Each \<open>char\<close> of a string
  stands for one UTF-16 code unit, so that \<open>length\<close> is the \<^verbatim>\<open>.length\<close> of the source.
\<close>

datatype jsval =
    JUndefined
  | JNull
  | JBool bool
  | JNum rat
  | JStr string
  | JArr "jsval list"
  | JObj "(string \<times> jsval) list"

text \<open>
  \<^verbatim>\<open>Object.assign({}, item)\<close> followed by \<^verbatim>\<open>Object.hasOwn\<close> and a property read. The copy of
  a primitive has no own property, and the copy of a string or an array has index
  properties only, so for the four names the source reads (\<^verbatim>\<open>value\<close>, \<^verbatim>\<open>text\<close>,
  \<^verbatim>\<open>image\<close>, \<^verbatim>\<open>key\<close>) only an object has anything to offer.
\<close>

fun own_prop :: "jsval \<Rightarrow> string \<Rightarrow> jsval option" where
  "own_prop (JObj ps) name = map_of ps name"
| "own_prop _ name = None"

text \<open>A normalized section, one element of the private field \<^verbatim>\<open>#data\<close>.\<close>

record wheel_section =
  sec_value :: jsval
  sec_text :: string
  sec_image :: "string option"
  sec_key :: "string option"

text \<open>
  One constructor for each \<^verbatim>\<open>throw new TypeError\<close> of the source, and \<open>HostTypeError\<close>
  for the TypeError that the engine raises when a property is read or written through
  \<^verbatim>\<open>undefined\<close> or \<^verbatim>\<open>null\<close>.
\<close>

datatype error =
    SectionCountMissing
  | SectionCountInvalid
  | JSONParseFailed
  | ExpectedArray
  | EmptyArray
  | TooManyOptions
  | MissingValue nat
  | MissingText nat
  | TextNotString nat
  | ImageNotString nat
  | KeyInvalid nat
  | HostTypeError

definition defaultKeys :: "string list" where
  \<comment> \<open>36 one-character strings, in the rows of the source\<close>
  "defaultKeys =
     map (\<lambda>c. [c]) (''asdfghjkl'' @ ''qwertyuiop'' @ ''zxcvbnm'' @ ''1234567890'')"

text \<open>An array read \<^verbatim>\<open>xs[i]\<close>: \<^verbatim>\<open>undefined\<close> (here \<open>None\<close>) outside the array.\<close>

definition js_index :: "'a list \<Rightarrow> int \<Rightarrow> 'a option" where
  "js_index xs i = (if 0 \<le> i \<and> i < int (length xs) then Some (xs ! nat i) else None)"

text \<open>
  The callback of \<^verbatim>\<open>data.map\<close> in \<^verbatim>\<open>#setData\<close>. The test
  \<^verbatim>\<open>typeof item !== 'object' || item === null\<close> comes after \<^verbatim>\<open>Object.assign({}, item)\<close>,
  which always yields an object, so it never fires and has no branch here.
\<close>

definition parseUnraWheelData :: "jsval \<Rightarrow> nat \<Rightarrow> error + wheel_section" where
  "parseUnraWheelData item i =
     (case own_prop item ''value'' of
        None \<Rightarrow> Inl (MissingValue i)
      | Some v \<Rightarrow>
         (case own_prop item ''text'' of
            None \<Rightarrow> Inl (MissingText i)
          | Some (JStr t) \<Rightarrow>
             (case (case own_prop item ''image'' of
                      None \<Rightarrow> Inr None
                    | Some (JStr img) \<Rightarrow> Inr (Some img)
                    | Some _ \<Rightarrow> Inl (ImageNotString i)) of
                Inl e \<Rightarrow> Inl e
              | Inr img \<Rightarrow>
                 (case own_prop item ''key'' of
                    None \<Rightarrow>
                      Inr \<lparr>sec_value = v, sec_text = t, sec_image = img,
                           sec_key = js_index defaultKeys (int i)\<rparr>
                  | Some (JStr k) \<Rightarrow>
                      if length k \<noteq> 1 then Inl (KeyInvalid i)
                      else Inr \<lparr>sec_value = v, sec_text = t, sec_image = img, sec_key = Some k\<rparr>
                  | Some _ \<Rightarrow> Inl (KeyInvalid i)))
          | Some _ \<Rightarrow> Inl (TextNotString i)))"

text \<open>\<^verbatim>\<open>data.map(parseUnraWheelData)\<close>: left to right, the first throw ends the map.\<close>

fun map_items :: "jsval list \<Rightarrow> nat \<Rightarrow> error + wheel_section list" where
  "map_items [] i = Inr []"
| "map_items (item # items) i =
     (case parseUnraWheelData item i of
        Inl e \<Rightarrow> Inl e
      | Inr s \<Rightarrow> (case map_items items (Suc i) of Inl e \<Rightarrow> Inl e | Inr ss \<Rightarrow> Inr (s # ss)))"

subsection \<open>The wheel\<close>

text \<open>
  The five arrays of \<^verbatim>\<open>#elements\<close> are filled and emptied together, one entry per section
  index; \<open>section_elem\<close> is what the source reads and writes of the entry at one index.
  Coordinates and styling of the SVG elements are left to the rendering surface.
\<close>

record section_elem =
  el_selected :: bool  \<comment> \<open>class \<^verbatim>\<open>section--selected\<close> of the path\<close>
  el_back :: bool  \<comment> \<open>class \<^verbatim>\<open>section--back\<close> of the path\<close>
  el_empty :: bool  \<comment> \<open>class \<^verbatim>\<open>section--empty\<close> of the path\<close>
  el_tabindex :: int  \<comment> \<open>\<^verbatim>\<open>tabindex\<close> of the link\<close>
  el_label :: string  \<comment> \<open>\<^verbatim>\<open>aria-label\<close> of the link\<close>
  el_keyText :: string
  el_contentText :: string
  el_image :: string  \<comment> \<open>\<^verbatim>\<open>href\<close> of the image\<close>

record pointer_elem =
  ptr_show :: bool  \<comment> \<open>class \<^verbatim>\<open>section-pointer--show\<close>\<close>
  ptr_rotate :: "rat option"  \<comment> \<open>the degrees of \<^verbatim>\<open>style.transform\<close>, once set\<close>

record wheel =
  data :: "wheel_section list option"
  angleStep :: rat
  angleOffset :: rat
  prevHoverIndex :: int
  currSectionPointerRotation :: rat
  keyDistanceFromCenter :: rat
  sectionCount :: int
  isMouseOver :: bool
  isLocked :: bool
  autoLockWheel :: bool
  staticSectionCount :: bool
  elements :: "section_elem list"
  svg_locked :: bool  \<comment> \<open>class \<^verbatim>\<open>unrawheel--locked\<close> of \<^verbatim>\<open>this.svg\<close>\<close>
  sectionPointerElem :: "pointer_elem option"

text \<open>The field initialisers of the class, and \<^verbatim>\<open>#initialRender\<close>: an svg without class.\<close>

definition initial_wheel :: wheel where
  "initial_wheel =
     \<lparr>data = None, angleStep = 0, angleOffset = 0, prevHoverIndex = 0,
      currSectionPointerRotation = 0, keyDistanceFromCenter = 0, sectionCount = 0,
      isMouseOver = False, isLocked = True, autoLockWheel = False,
      staticSectionCount = False, elements = [], svg_locked = False,
      sectionPointerElem = None\<rparr>"

subsection \<open>\<^verbatim>\<open>#setData\<close>\<close>

text \<open>
  The assignments of \<^verbatim>\<open>#setData\<close>, which follow the validation: the new list is stored, the
  section count follows it unless it is static, the hover state is reset when the count
  changed, and the constants of the rendering are computed.
\<close>

definition commitData :: "wheel \<Rightarrow> wheel_section list \<Rightarrow> wheel" where
  "commitData st ds =
     (let prevSegCount = sectionCount st;
          st1 = st\<lparr>data := Some ds\<rparr>;
          st2 = (if \<not> staticSectionCount st1
                 then st1\<lparr>sectionCount := int (length ds) + 1\<rparr> else st1);
          st3 = (if prevSegCount \<noteq> sectionCount st2
                 then st2\<lparr>prevHoverIndex := 0, currSectionPointerRotation := 0\<rparr>
                 else st2);
          step = num_div (num_mul 2 Math_PI) (of_int (sectionCount st3))
      in st3\<lparr>angleStep := step,
             angleOffset := num_add Math_PI (num_div step 2),
             keyDistanceFromCenter :=
               num_add (1 / 4)
                 \<bar>num_mul (fl (1 / 10)) (num_div (of_int (sectionCount st3 - 6)) 20)\<bar>\<rparr>)"

text \<open>
  \<open>parse\<close> stands for \<^verbatim>\<open>JSON.parse\<close>, \<open>None\<close> where it throws. Every \<^verbatim>\<open>throw\<close> of
  \<^verbatim>\<open>#setData\<close> comes before its first assignment to a field.
\<close>

definition setData :: "(string \<Rightarrow> jsval option) \<Rightarrow> jsval \<Rightarrow> wheel \<Rightarrow> (error + unit) \<times> wheel" where
  "setData parse d st =
     (case (case d of
              JStr s \<Rightarrow> (case parse s of None \<Rightarrow> Inl JSONParseFailed | Some v \<Rightarrow> Inr v)
            | _ \<Rightarrow> Inr d) of
        Inl e \<Rightarrow> (Inl e, st)
      | Inr (JArr items) \<Rightarrow>
          if length items = 0 then (Inl EmptyArray, st)
          else if staticSectionCount st \<and> int (length items) > sectionCount st - 1
          then (Inl TooManyOptions, st)
          else
            (case map_items items 0 of
               Inl e \<Rightarrow> (Inl e, st)
             | Inr ds \<Rightarrow> (Inr (), commitData st ds))
      | Inr _ \<Rightarrow> (Inl ExpectedArray, st))"

subsection \<open>Rendering\<close>

text \<open>
  \<^verbatim>\<open>indexToDefaultKey\<close> reads \<^verbatim>\<open>this.#defaultKeys[index % this.defaultKeys.length]\<close>. The class
  declares the private field \<^verbatim>\<open>#defaultKeys\<close> only; \<^verbatim>\<open>this.defaultKeys\<close> is a public
  property that neither the class nor \<^verbatim>\<open>HTMLElement\<close> defines, so the read gives
  \<^verbatim>\<open>undefined\<close> and \<^verbatim>\<open>.length\<close> on it raises.
\<close>

definition this_defaultKeys :: "string list option" where
  "this_defaultKeys = None"

definition indexToDefaultKey :: "nat \<Rightarrow> error + string option" where
  "indexToDefaultKey index =
     (case this_defaultKeys of
        None \<Rightarrow> Inl HostTypeError
      | Some ks \<Rightarrow> Inr (js_index defaultKeys (int index mod int (length ks))))"

text \<open>
  The first loop of \<^verbatim>\<open>#render\<close>, run when \<^verbatim>\<open>sectionCountChanged\<close>: the arrays are emptied and
  one entry per index below \<^verbatim>\<open>#sectionCount\<close> is created; the pointer element is created at index
  0. \<^verbatim>\<open>root.appendChild(this.sectionPointerElem)\<close> raises when no pointer was ever created.
\<close>

definition newElement :: "wheel \<Rightarrow> int \<Rightarrow> section_elem" where
  "newElement st i =
     \<lparr>el_selected = False, el_back = (i = sectionCount st - 1), el_empty = False,
      el_tabindex = (if isLocked st then - 1 else 0), el_label = [], el_keyText = [],
      el_contentText = [], el_image = []\<rparr>"

definition rebuild :: "wheel \<Rightarrow> (error + unit) \<times> wheel" where
  "rebuild st =
     (let n = nat (sectionCount st);
          st1 = st\<lparr>elements := map (\<lambda>i. newElement st (int i)) [0..<n],
                   sectionPointerElem :=
                     (if 0 < n then Some \<lparr>ptr_show = isMouseOver st, ptr_rotate = None\<rparr>
                      else sectionPointerElem st)\<rparr>
      in case sectionPointerElem st1 of
           None \<Rightarrow> (Inl HostTypeError, st1)
         | Some p \<Rightarrow> (Inr (), st1))"

text \<open>
  One round of the second loop of \<^verbatim>\<open>#render\<close> ("set contents"). \<^verbatim>\<open>this.#data.length\<close> is read
  only when the index is not the back section; a write through a missing element raises; the
  key text falls back to \<^verbatim>\<open>indexToDefaultKey\<close> when the stored key is \<^verbatim>\<open>undefined\<close>, after the
  class \<^verbatim>\<open>section--empty\<close> and the content text have been written.
\<close>

definition setContent :: "wheel \<Rightarrow> nat \<Rightarrow> (error + unit) \<times> wheel" where
  "setContent st i =
     (let isBackSection = (int i = sectionCount st - 1) in
      if isBackSection then
        (case js_index (elements st) (int i) of
           None \<Rightarrow> (Inl HostTypeError, st)
         | Some el \<Rightarrow>
             (Inr (), st\<lparr>elements := (elements st)
                [i := el\<lparr>el_empty := False, el_contentText := [], el_keyText := [],
                         el_image := [], el_label := ''go back''\<rparr>]\<rparr>))
      else
        (case data st of
           None \<Rightarrow> (Inl HostTypeError, st)
         | Some ds \<Rightarrow>
             (case js_index (elements st) (int i) of
                None \<Rightarrow> (Inl HostTypeError, st)
              | Some el \<Rightarrow>
                  if int i > int (length ds) - 1 then
                    (Inr (), st\<lparr>elements := (elements st)
                       [i := el\<lparr>el_empty := True, el_contentText := [], el_keyText := [],
                                el_image := [], el_label := []\<rparr>]\<rparr>)
                  else
                    (let item = ds ! i;
                         el1 = el\<lparr>el_empty := False, el_contentText := sec_text item\<rparr>
                     in case (case sec_key item of
                                Some k \<Rightarrow> Inr (Some k)
                              | None \<Rightarrow> indexToDefaultKey i) of
                          Inl e \<Rightarrow> (Inl e, st\<lparr>elements := (elements st)[i := el1]\<rparr>)
                        | Inr k \<Rightarrow>
                            (Inr (), st\<lparr>elements := (elements st)
                               [i := el1\<lparr>el_keyText := (case k of Some c \<Rightarrow> c | None \<Rightarrow> []),
                                         el_image := (case sec_image item of
                                                        Some img \<Rightarrow> img | None \<Rightarrow> []),
                                         el_label := sec_text item\<rparr>]\<rparr>)))))"

fun setContents :: "nat list \<Rightarrow> wheel \<Rightarrow> (error + unit) \<times> wheel" where
  "setContents [] st = (Inr (), st)"
| "setContents (i # rest) st =
     (case setContent st i of
        (Inl e, st') \<Rightarrow> (Inl e, st')
      | (Inr u, st') \<Rightarrow> setContents rest st')"

definition render :: "bool \<Rightarrow> wheel \<Rightarrow> (error + unit) \<times> wheel" where
  "render sectionCountChanged st =
     (case (if sectionCountChanged then rebuild st else (Inr (), st)) of
        (Inl e, st1) \<Rightarrow> (Inl e, st1)
      | (Inr u, st1) \<Rightarrow> setContents [0..<nat (sectionCount st1)] st1)"

subsection \<open>The public methods\<close>

definition toggleLockWheel :: "bool \<Rightarrow> wheel \<Rightarrow> wheel" where
  "toggleLockWheel toggleLock st =
     (if toggleLock = isLocked st then st
      else st\<lparr>isLocked := toggleLock, svg_locked := toggleLock,
              elements := map (\<lambda>el. el\<lparr>el_tabindex := (if toggleLock then - 1 else 0)\<rparr>)
                            (elements st)\<rparr>)"

definition setSections :: "(string \<Rightarrow> jsval option) \<Rightarrow> jsval \<Rightarrow> wheel \<Rightarrow> (error + unit) \<times> wheel" where
  "setSections parse d st =
     (let prevSegCount = (if data st = None then 0 else sectionCount st) in
      case setData parse d st of
        (Inl e, st1) \<Rightarrow> (Inl e, st1)
      | (Inr u, st1) \<Rightarrow>
          (case render (prevSegCount \<noteq> sectionCount st1) st1 of
             (Inl e, st2) \<Rightarrow> (Inl e, st2)
           | (Inr u, st2) \<Rightarrow>
               (Inr (), if autoLockWheel st2 then toggleLockWheel False st2 else st2)))"

subsection \<open>The event callbacks\<close>

text \<open>
  \<^verbatim>\<open>#onSectionSelect\<close>. The result \<open>Inr None\<close> is a return without an event, \<open>Inr (Some v)\<close> is
  the dispatch of \<^verbatim>\<open>section-select\<close> with \<^verbatim>\<open>detail.value\<close> \<open>v\<close>. The timer that takes the
  class \<^verbatim>\<open>section--selected\<close> away again after 100 ms is not part of the model.
\<close>

definition selectedValue :: "int \<Rightarrow> wheel \<Rightarrow> error + jsval" where
  \<comment> \<open>the expression for \<^verbatim>\<open>detail.value\<close>\<close>
  "selectedValue sectionIndex st =
     (if sectionIndex = - 1 \<or> sectionIndex = sectionCount st - 1 then Inr (JNum (- 1))
      else case data st of
             None \<Rightarrow> Inl HostTypeError
           | Some ds \<Rightarrow>
               (case js_index ds sectionIndex of
                  None \<Rightarrow> Inl HostTypeError
                | Some item \<Rightarrow> Inr (sec_value item)))"

definition onSectionSelect :: "int \<Rightarrow> wheel \<Rightarrow> (error + jsval option) \<times> wheel" where
  "onSectionSelect sectionIndex st =
     (let isBackSection = (sectionIndex = int (length (elements st)) - 1);
          ignored =
            (if isBackSection then Inr False
             else case data st of
                    None \<Rightarrow> Inl HostTypeError
                  | Some ds \<Rightarrow>
                      (case js_index ds sectionIndex of
                         None \<Rightarrow> Inr True
                       | Some item \<Rightarrow> Inr (sec_key item = Some [])))
      in case ignored of
           Inl e \<Rightarrow> (Inl e, st)
         | Inr True \<Rightarrow> (Inr None, st)
         | Inr False \<Rightarrow>
             (case js_index (elements st) sectionIndex of
                None \<Rightarrow> (Inl HostTypeError, st)
              | Some elem \<Rightarrow>
                  let st1 = (if \<not> el_selected elem
                             then st\<lparr>elements := (elements st)
                                    [nat sectionIndex := elem\<lparr>el_selected := True\<rparr>]\<rparr>
                             else st);
                      st2 = (if autoLockWheel st1 then toggleLockWheel True st1 else st1)
                  in case selectedValue sectionIndex st2 of
                       Inl e \<Rightarrow> (Inl e, st2)
                     | Inr v \<Rightarrow> (Inr (Some v), st2)))"

text \<open>\<^verbatim>\<open>Array.prototype.findIndex\<close>, \<open>None\<close> for the result \<^verbatim>\<open>-1\<close>.\<close>

fun findIndex :: "('a \<Rightarrow> bool) \<Rightarrow> 'a list \<Rightarrow> nat option" where
  "findIndex P [] = None"
| "findIndex P (x # xs) =
     (if P x then Some 0 else (case findIndex P xs of None \<Rightarrow> None | Some i \<Rightarrow> Some (Suc i)))"

definition onKeyPress :: "string \<Rightarrow> wheel \<Rightarrow> (error + jsval option) \<times> wheel" where
  "onKeyPress k st =
     (if isLocked st then (Inr None, st)
      else if k = ''Backspace'' then onSectionSelect (int (length (elements st)) - 1) st
      else case data st of
             None \<Rightarrow> (Inl HostTypeError, st)
           | Some ds \<Rightarrow>
               (case findIndex (\<lambda>item. sec_key item = Some k) ds of
                  None \<Rightarrow> (Inr None, st)
                | Some index \<Rightarrow> onSectionSelect (int index) st))"

text \<open>
  \<^verbatim>\<open>#onSectionClick\<close>, the \<^verbatim>\<open>click\<close> listener of every section path and of every link (a link
  is clicked by the mouse or activated with Enter while it has the focus); \<open>index\<close> is the
  \<^verbatim>\<open>data-section\<close> attribute of the target.
\<close>

definition onSectionClick :: "int \<Rightarrow> wheel \<Rightarrow> (error + jsval option) \<times> wheel" where
  "onSectionClick index st = onSectionSelect index st"

text \<open>
  \<^verbatim>\<open>Array.prototype.reduce\<close> without an initial value starts from the first element and calls
  back from index 1 on; \<open>reduce_from\<close> is the part after the first element.
\<close>

fun reduce_from :: "('a \<Rightarrow> 'a \<Rightarrow> nat \<Rightarrow> 'a) \<Rightarrow> 'a \<Rightarrow> 'a list \<Rightarrow> nat \<Rightarrow> 'a" where
  "reduce_from f acc [] i = acc"
| "reduce_from f acc (x # xs) i = reduce_from f (f acc x i) xs (Suc i)"

definition shorter :: "int \<Rightarrow> int \<Rightarrow> nat \<Rightarrow> int" where
  \<comment> \<open>the callback \<^verbatim>\<open>(dist, prev, index) => ...\<close> of the reduce in \<^verbatim>\<open>#onSectionHover\<close>\<close>
  "shorter dist' prev' index =
     (if index = 0 then dist' else if \<bar>dist'\<bar> < \<bar>prev'\<bar> then dist' else prev')"

definition hoverDistance :: "int \<Rightarrow> int \<Rightarrow> int \<Rightarrow> int" where
  \<comment> \<open>the constant \<^verbatim>\<open>distance\<close> of \<^verbatim>\<open>#onSectionHover\<close>\<close>
  "hoverDistance count prev index =
     (let distThroughZero = count - prev + index;
          distThroughZeroReverse = - (count + prev - index);
          distDirect = index - prev
      in reduce_from shorter distThroughZero [distThroughZeroReverse, distDirect] 1)"

definition onSectionHover :: "int \<Rightarrow> wheel \<Rightarrow> (error + unit) \<times> wheel" where
  "onSectionHover index st =
     (if index = prevHoverIndex st then (Inr (), st)
      else case data st of
             None \<Rightarrow> (Inl HostTypeError, st)
           | Some ds \<Rightarrow>
               if index > int (length ds) - 1 \<and> index \<noteq> sectionCount st - 1 then (Inr (), st)
               else
                 (let distance = hoverDistance (sectionCount st) (prevHoverIndex st) index;
                      newRotation =
                        num_add (currSectionPointerRotation st)
                          (num_mul (num_div 360 (of_int (sectionCount st))) (of_int distance))
                  in case sectionPointerElem st of
                       None \<Rightarrow> (Inl HostTypeError, st)
                     | Some p \<Rightarrow>
                         (Inr (), st\<lparr>sectionPointerElem := Some (p\<lparr>ptr_rotate := Some newRotation\<rparr>),
                                     currSectionPointerRotation := newRotation,
                                     prevHoverIndex := index\<rparr>)))"

definition onMouseEnter :: "wheel \<Rightarrow> wheel" where
  "onMouseEnter st =
     st\<lparr>isMouseOver := True,
        sectionPointerElem := map_option (\<lambda>p. p\<lparr>ptr_show := True\<rparr>) (sectionPointerElem st)\<rparr>"

definition onMouseLeave :: "wheel \<Rightarrow> wheel" where
  "onMouseLeave st =
     st\<lparr>isMouseOver := False,
        sectionPointerElem := map_option (\<lambda>p. p\<lparr>ptr_show := False\<rparr>) (sectionPointerElem st)\<rparr>"

subsection \<open>The constructor\<close>

text \<open>
  The attributes of the element: \<^verbatim>\<open>section-count\<close> is absent, or has the value
  \<^verbatim>\<open>Number(...)\<close> gives it, \<^verbatim>\<open>NaN\<close> or a number (an integer in this model). The test
  \<^verbatim>\<open>!Number(sectionCountOption) > 0\<close> negates first: it throws exactly for \<^verbatim>\<open>NaN\<close> and 0.
\<close>

datatype count_attr = Absent | NotANumber | Count int

record attrs =
  attr_dynamic_section_count :: bool
  attr_section_count :: count_attr
  attr_auto_lock :: bool
  attr_data :: "string option"

definition construct :: "(string \<Rightarrow> jsval option) \<Rightarrow> attrs \<Rightarrow> error + wheel" where
  "construct parse a =
     (case (if \<not> attr_dynamic_section_count a then
              (case attr_section_count a of
                 Absent \<Rightarrow> Inl SectionCountMissing
               | NotANumber \<Rightarrow> Inl SectionCountInvalid
               | Count c \<Rightarrow>
                   if c = 0 then Inl SectionCountInvalid
                   else Inr (initial_wheel\<lparr>staticSectionCount := True, sectionCount := c + 1\<rparr>))
            else Inr initial_wheel) of
        Inl e \<Rightarrow> Inl e
      | Inr st0 \<Rightarrow>
          (let st1 = st0\<lparr>autoLockWheel := attr_auto_lock a\<rparr> in
           case attr_data a of
             None \<Rightarrow> Inr st1
           | Some s \<Rightarrow>
               (case setData parse (JStr s) st1 of
                  (Inl e, st2) \<Rightarrow> Inl e
                | (Inr u, st2) \<Rightarrow>
                    (case render True (st2\<lparr>isLocked := False\<rparr>) of
                       (Inl e, st3) \<Rightarrow> Inl e
                     | (Inr u, st3) \<Rightarrow> Inr st3))))"

subsection \<open>The angles of the arcs\<close>

text \<open>
  The constants \<^verbatim>\<open>startAngle\<close> and \<^verbatim>\<open>endAngle\<close> that \<^verbatim>\<open>#render\<close> computes for index \<open>i\<close>
  when it creates the section path.
\<close>

definition startAngle :: "wheel \<Rightarrow> nat \<Rightarrow> rat" where
  "startAngle st i = num_add (num_mul (of_nat i) (angleStep st)) (angleOffset st)"

definition endAngle :: "wheel \<Rightarrow> nat \<Rightarrow> rat" where
  "endAngle st i = num_add (num_mul (of_nat (i + 1)) (angleStep st)) (angleOffset st)"

subsection \<open>Example wheels\<close>

text \<open>
  The section list of the repository's example page, a \<^verbatim>\<open>JSON.parse\<close> that is never asked
  (the examples pass arrays), and the wheels the example page can build: one with
  \<^verbatim>\<open>dynamic-section-count\<close>, one with \<^verbatim>\<open>section-count="10"\<close>.
\<close>

definition example_data :: "jsval list" where
  "example_data =
     [JObj [(''value'', JStr ''value_1''), (''image'', JStr ''./icons/apc.png''),
            (''text'', JStr ''IFVs & APCs'')],
      JObj [(''value'', JStr ''value_2''), (''image'', JStr ''./icons/turret.png''),
            (''text'', JStr ''Anti-tank Missile'')],
      JObj [(''value'', JStr ''value_3''), (''image'', JStr ''./icons/jeep.png''),
            (''text'', JStr ''Tactical & MRAP'')],
      JObj [(''value'', JStr ''value_4''), (''image'', JStr ''./icons/flatbed-covered.png''),
            (''text'', JStr ''Support & Logistics'')],
      JObj [(''value'', JStr ''value_5''), (''image'', JStr ''./icons/tank.png''),
            (''text'', JStr ''Tanks & -Support'')]]"

definition no_json :: "string \<Rightarrow> jsval option" where
  "no_json s = None"

definition dynamic_attrs :: attrs where
  "dynamic_attrs =
     \<lparr>attr_dynamic_section_count = True, attr_section_count = Absent,
      attr_auto_lock = False, attr_data = None\<rparr>"

definition static_attrs :: attrs where
  "static_attrs =
     \<lparr>attr_dynamic_section_count = False, attr_section_count = Count 10,
      attr_auto_lock = False, attr_data = None\<rparr>"

text \<open>
  An item without \<^verbatim>\<open>key\<close> (it gets the default key of its index) and an item whose
  \<^verbatim>\<open>key\<close> is the empty string.
\<close>

definition keyless_item :: jsval where
  "keyless_item = JObj [(''value'', JNum 1), (''text'', JStr ''option'')]"

definition empty_key_item :: jsval where
  "empty_key_item = JObj [(''key'', JStr []), (''value'', JNum 1), (''text'', JStr ''option'')]"

text \<open>
  The wheel of a new element with the attributes \<open>a\<close> once \<^verbatim>\<open>setSections(items)\<close> has been
  called on it, whether the call returned or raised.
\<close>

definition wheel_after :: "attrs \<Rightarrow> jsval list \<Rightarrow> wheel" where
  "wheel_after a items =
     (case construct no_json a of
        Inl e \<Rightarrow> initial_wheel
      | Inr w \<Rightarrow> snd (setSections no_json (JArr items) w))"


subsection \<open>The rendered wheel\<close>

text \<open>
  What every wheel satisfies from its construction on: without data nothing has been
  rendered; with data there is one element per section and a pointer element, the list is
  not empty and leaves the last section to the back button (so that there are at least two
  sections), and the angle constants are the ones computed from the section count.
\<close>

definition wheel_inv :: "wheel \<Rightarrow> bool" where
  "wheel_inv st =
     (case data st of
        None \<Rightarrow> elements st = []
      | Some ds \<Rightarrow>
          length (elements st) = nat (sectionCount st)
        \<and> ds \<noteq> [] \<and> int (length ds) \<le> sectionCount st - 1
        \<and> sectionPointerElem st \<noteq> None
        \<and> angleStep st = num_div (num_mul 2 Math_PI) (of_int (sectionCount st))
        \<and> angleOffset st = num_add Math_PI (num_div (angleStep st) 2))"

section \<open>Properties\<close>

subsection \<open>Rounding\<close>

lemma pow2_powi: "pow2 e = 2 powi e"
  by (simp add: pow2_def power_int_def field_simps)

lemma pow2_pos: "0 < pow2 e"
  by (simp add: pow2_powi)

lemma pow2_add: "pow2 (a + b) = pow2 a * pow2 b"
  by (simp add: pow2_powi power_int_add)

lemma pow2_mono: "a \<le> b \<Longrightarrow> pow2 a \<le> pow2 b"
  by (simp add: pow2_powi power_int_increasing)

lemma pow2_of_bitlen:
  assumes "0 < a"
  shows "pow2 (bitlen a - 1) \<le> of_int a" and "of_int a < pow2 (bitlen a)"
proof -
  from bitlen_bounds [OF assms] have b: "2 ^ nat (bitlen a - 1) \<le> a" "a < 2 ^ nat (bitlen a)"
    by simp_all
  have ge: "1 \<le> bitlen a" using assms bitlen_eq_zero_iff [of a] bitlen_nonneg [of a] by linarith
  from b(1) have "(of_int (2 ^ nat (bitlen a - 1)) :: rat) \<le> of_int a"
    by (simp only: of_int_le_iff)
  with ge show "pow2 (bitlen a - 1) \<le> of_int a" by (simp add: pow2_def)
  from b(2) have "(of_int a :: rat) < of_int (2 ^ nat (bitlen a))"
    by (simp only: of_int_less_iff)
  with ge show "of_int a < pow2 (bitlen a)" by (simp add: pow2_def)
qed

text \<open>\<open>binade\<close> finds the power of two at or below a positive rational.\<close>

lemma binade_correct:
  assumes "0 < x"
  shows "pow2 (binade x) \<le> x \<and> x < pow2 (binade x + 1)"
proof -
  obtain a b where q: "quotient_of x = (a, b)" by (cases "quotient_of x")
  have b: "0 < b" using q by (rule quotient_of_denom_pos)
  have x: "x = of_int a / of_int b" using q by (rule quotient_of_div)
  with assms b have a: "0 < a" by (simp add: zero_less_divide_iff)
  let ?k = "bitlen a - bitlen b"
  note A = pow2_of_bitlen [OF a] and B = pow2_of_bitlen [OF b]
  have bq: "(0::rat) < of_int b" using b by simp
  have up: "x < pow2 (?k + 1)"
  proof -
    have "of_int a < pow2 (bitlen a)" by (rule A(2))
    also have "pow2 (bitlen a) = pow2 (?k + 1) * pow2 (bitlen b - 1)"
      by (simp flip: pow2_add)
    also have "\<dots> \<le> pow2 (?k + 1) * of_int b"
      using B(1) pow2_pos [of "?k + 1"] by simp
    finally have "of_int a / of_int b < pow2 (?k + 1)"
      using bq by (simp add: pos_divide_less_eq)
    with x show ?thesis by simp
  qed
  have lo: "pow2 (?k - 1) \<le> x"
  proof -
    have "pow2 (?k - 1) * of_int b \<le> pow2 (?k - 1) * pow2 (bitlen b)"
      using B(2) pow2_pos [of "?k - 1"] by simp
    also have "\<dots> = pow2 (bitlen a - 1)" by (simp flip: pow2_add)
    also have "\<dots> \<le> of_int a" by (rule A(1))
    finally have "pow2 (?k - 1) \<le> of_int a / of_int b"
      using bq by (simp add: pos_le_divide_eq)
    with x show ?thesis by simp
  qed
  show ?thesis
  proof (cases "pow2 ?k \<le> x")
    case True
    with q have "binade x = ?k" by (simp add: binade_def)
    with True up show ?thesis by simp
  next
    case False
    with q have "binade x = ?k - 1" by (simp add: binade_def)
    with False lo show ?thesis by simp
  qed
qed

lemma binade_unique:
  assumes "pow2 e \<le> x" and "x < pow2 (e + 1)"
  shows "binade x = e"
proof -
  have "0 < x" using assms(1) pow2_pos [of e] by simp
  note c = binade_correct [OF this]
  have "\<not> binade x < e"
  proof
    assume "binade x < e"
    then have "pow2 (binade x + 1) \<le> pow2 e" by (intro pow2_mono) simp
    with c assms(1) show False by simp
  qed
  moreover have "\<not> e < binade x"
  proof
    assume "e < binade x"
    then have "pow2 (e + 1) \<le> pow2 (binade x)" by (intro pow2_mono) simp
    with c assms(2) show False by simp
  qed
  ultimately show ?thesis by simp
qed

text \<open>
  \<open>fl x\<close> is a multiple of the unit in the last place of \<open>x\<close>, \<open>2^e\<close> with
  \<open>2^(e+52) \<le> |x| < 2^(e+53)\<close>, and is at most half a unit away from \<open>x\<close>.
\<close>

lemma fl_eq:
  assumes "pow2 (e + 52) \<le> \<bar>x\<bar>" and "\<bar>x\<bar> < pow2 (e + 53)"
  shows "fl x = sgn x * of_int (roundTiesToEven (\<bar>x\<bar> / pow2 e)) * pow2 e"
proof -
  have "x \<noteq> 0" using assms(1) pow2_pos [of "e + 52"] by auto
  moreover have "binade \<bar>x\<bar> = e + 52"
    using assms by (intro binade_unique) (simp_all add: add.commute)
  ultimately show ?thesis by (simp add: fl_def Let_def)
qed

lemma roundTiesToEven_near: "\<bar>of_int (roundTiesToEven y) - y\<bar> \<le> 1 / 2"
proof -
  define r where "r = y - of_int \<lfloor>y\<rfloor>"
  have r: "0 \<le> r" "r < 1" unfolding r_def by linarith+
  have y: "y = of_int \<lfloor>y\<rfloor> + r" unfolding r_def by simp
  consider "r < 1 / 2" | "1 / 2 < r" | "r = 1 / 2" by linarith
  then show ?thesis
  proof cases
    case 1
    then have "roundTiesToEven y = \<lfloor>y\<rfloor>"
      by (simp add: roundTiesToEven_def Let_def r_def)
    with r 1 show ?thesis by (simp add: r_def)
  next
    case 2
    then have "roundTiesToEven y = \<lfloor>y\<rfloor> + 1"
      by (simp add: roundTiesToEven_def Let_def r_def)
    with r 2 show ?thesis by (simp add: r_def)
  next
    case 3
    then have "roundTiesToEven y = \<lfloor>y\<rfloor> \<or> roundTiesToEven y = \<lfloor>y\<rfloor> + 1"
      by (simp add: roundTiesToEven_def Let_def r_def)
    with 3 show ?thesis by (auto simp: r_def)
  qed
qed

lemma fl_near:
  assumes "x \<noteq> 0"
  shows "\<bar>fl x - x\<bar> \<le> pow2 (binade \<bar>x\<bar> - 52) / 2"
proof -
  let ?e = "binade \<bar>x\<bar> - 52"
  let ?m = "roundTiesToEven (\<bar>x\<bar> / pow2 ?e)"
  have p: "0 < pow2 ?e" by (rule pow2_pos)
  have "fl x - x = sgn x * (of_int ?m * pow2 ?e - \<bar>x\<bar>)"
    using assms by (simp add: fl_def Let_def algebra_simps sgn_if)
  also have "of_int ?m * pow2 ?e - \<bar>x\<bar> = (of_int ?m - \<bar>x\<bar> / pow2 ?e) * pow2 ?e"
    using p by (simp add: algebra_simps)
  finally have "\<bar>fl x - x\<bar> = \<bar>of_int ?m - \<bar>x\<bar> / pow2 ?e\<bar> * pow2 ?e"
    using assms p by (simp add: abs_mult abs_sgn_eq)
  also have "\<dots> \<le> (1 / 2) * pow2 ?e"
    using roundTiesToEven_near [of "\<bar>x\<bar> / pow2 ?e"] p by (intro mult_right_mono) simp_all
  finally show ?thesis by simp
qed

lemma floor_rat_numeral: "\<lfloor>(numeral a :: rat) / numeral b\<rfloor> = numeral a div numeral b"
  by (metis floor_divide_of_int_eq of_int_numeral)

lemma fl_0: "fl 0 = 0"
  by (simp add: fl_def)

lemmas num_eval = pow2_def roundTiesToEven_def Let_def floor_rat_numeral fl_0


lemma fl_rel: "\<bar>fl x - x\<bar> \<le> \<bar>x\<bar> / 2 ^ 53"
proof (cases "x = 0")
  case True
  then show ?thesis by (simp add: fl_0)
next
  case False
  then have "0 < \<bar>x\<bar>" by simp
  from binade_correct [OF this] have b: "pow2 (binade \<bar>x\<bar>) \<le> \<bar>x\<bar>" by simp
  have "pow2 (binade \<bar>x\<bar> - 52) = pow2 (binade \<bar>x\<bar>) * pow2 (- 52)"
    by (simp flip: pow2_add)
  also have "pow2 (- 52) = 1 / 2 ^ 52" by (simp add: pow2_def)
  finally have "pow2 (binade \<bar>x\<bar> - 52) / 2 = pow2 (binade \<bar>x\<bar>) / 2 ^ 53" by simp
  also have "\<dots> \<le> \<bar>x\<bar> / 2 ^ 53" using b by (simp add: divide_right_mono)
  finally show ?thesis using fl_near [OF False] by simp
qed

lemma fl_bounds:
  assumes "0 \<le> x" and "x \<le> b" and "b \<le> 100"
  shows "0 \<le> fl x" and "fl x \<le> b + 1 / 1000" and "\<bar>fl x - x\<bar> \<le> b / 2 ^ 53"
proof -
  from fl_rel [of x] assms(1) have r: "\<bar>fl x - x\<bar> \<le> x / 2 ^ 53" by simp
  have "x / 2 ^ 53 \<le> b / 2 ^ 53" using assms(2) by (simp add: divide_right_mono)
  with r show e: "\<bar>fl x - x\<bar> \<le> b / 2 ^ 53" by simp
  have "x / 2 ^ 53 \<le> x" using assms(1) by (simp add: field_simps)
  with r assms(1) show "0 \<le> fl x" by linarith
  have "b / 2 ^ 53 \<le> 1 / 1000" using assms(3) by simp
  with e assms(2) show "fl x \<le> b + 1 / 1000" by linarith
qed


lemma two_pi_exact: "num_mul 2 Math_PI = 2 * Math_PI"
  by (simp add: num_mul_def fl_eq [where e = "- 50"] num_eval Math_PI_def)

lemma angle_constants_bounds:
  fixes n :: int
  assumes n: "1 \<le> n"
    and s: "s = num_div (num_mul 2 Math_PI) (of_int n)"
    and off: "off = num_add Math_PI (num_div s 2)"
  shows "0 \<le> s" and "of_int n * s \<le> 63 / 10"
    and "\<bar>of_int n * s - 2 * Math_PI\<bar> \<le> (63 / 10) / 2 ^ 53"
    and "0 \<le> off" and "off \<le> 6301 / 1000"
proof -
  define c :: rat where "c = 2 * Math_PI"
  define x where "x = c / of_int n"
  have c: "0 \<le> c" "c \<le> 62832 / 10000" by (simp_all add: c_def Math_PI_def)
  have np: "(1::rat) \<le> of_int n" using n by simp
  have x: "0 \<le> x" "of_int n * x = c" using c np by (simp_all add: x_def)
  have sx: "s = fl x" by (simp add: s two_pi_exact num_div_def x_def c_def)
  from fl_rel [of x] x(1) have r: "\<bar>s - x\<bar> \<le> x / 2 ^ 53" by (simp add: sx)
  have "x / 2 ^ 53 \<le> x" using x(1) by (simp add: field_simps)
  with r x(1) show s0: "0 \<le> s" by linarith
  have "of_int n * \<bar>s - x\<bar> \<le> of_int n * (x / 2 ^ 53)"
    using r np by (intro mult_left_mono) simp_all
  also have "\<dots> = c / 2 ^ 53" using x(2) by simp
  finally have "\<bar>of_int n * s - of_int n * x\<bar> \<le> c / 2 ^ 53"
    using np by (simp add: abs_mult flip: right_diff_distrib)
  with x(2) have d: "\<bar>of_int n * s - c\<bar> \<le> c / 2 ^ 53" by simp
  have "c / 2 ^ 53 \<le> (63 / 10) / 2 ^ 53" using c(2) by simp
  with d show "\<bar>of_int n * s - 2 * Math_PI\<bar> \<le> (63 / 10) / 2 ^ 53"
    by (simp add: c_def)
  have "c / 2 ^ 53 \<le> 1 / 1000" using c(2) by simp
  with d c(2) show ns: "of_int n * s \<le> 63 / 10" by linarith
  have "1 * s \<le> of_int n * s" using np s0 by (intro mult_right_mono) simp_all
  with ns have "s / 2 \<le> 63 / 20" by simp
  from fl_bounds(1,2) [OF _ this] s0
  have h: "0 \<le> num_div s 2" "num_div s 2 \<le> 63 / 20 + 1 / 1000"
    by (simp_all add: num_div_def)
  have "0 \<le> Math_PI + num_div s 2" "Math_PI + num_div s 2 \<le> 63 / 10"
    using h by (simp_all add: Math_PI_def)
  from fl_bounds(1,2) [OF this] show "0 \<le> off" and "off \<le> 6301 / 1000"
    by (simp_all add: off num_add_def)
qed

lemma angle_rounding:
  fixes n :: int and k :: nat
  assumes n: "1 \<le> n" and k: "int k \<le> n"
    and s: "s = num_div (num_mul 2 Math_PI) (of_int n)"
    and off: "off = num_add Math_PI (num_div s 2)"
  shows "\<bar>num_mul (of_nat k) s - of_nat k * s\<bar> \<le> (63 / 10) / 2 ^ 53"
    and "\<bar>num_add (num_mul (of_nat k) s) off - (num_mul (of_nat k) s + off)\<bar>
           \<le> (127 / 10) / 2 ^ 53"
proof -
  note b = angle_constants_bounds [OF n s off]
  have "(of_nat k :: rat) \<le> of_int n" using k by (metis of_int_le_iff of_int_of_nat_eq)
  then have "of_nat k * s \<le> of_int n * s" using b(1) by (intro mult_right_mono)
  with b(2) have ks: "0 \<le> of_nat k * s" "of_nat k * s \<le> 63 / 10" using b(1) by simp_all
  from fl_bounds [OF ks] have t: "0 \<le> num_mul (of_nat k) s"
    "num_mul (of_nat k) s \<le> 63 / 10 + 1 / 1000"
    "\<bar>num_mul (of_nat k) s - of_nat k * s\<bar> \<le> (63 / 10) / 2 ^ 53"
    by (simp_all add: num_mul_def)
  from t(3) show "\<bar>num_mul (of_nat k) s - of_nat k * s\<bar> \<le> (63 / 10) / 2 ^ 53" .
  have "0 \<le> num_mul (of_nat k) s + off" "num_mul (of_nat k) s + off \<le> 127 / 10"
    using t(1,2) b(4,5) by simp_all
  from fl_bounds(3) [OF this]
  show "\<bar>num_add (num_mul (of_nat k) s) off - (num_mul (of_nat k) s + off)\<bar>
           \<le> (127 / 10) / 2 ^ 53"
    by (simp add: num_add_def)
qed

lemma span_rounding:
  fixes n :: int and i :: nat
  assumes n: "1 \<le> n" and i: "int i < n"
    and s: "s = num_div (num_mul 2 Math_PI) (of_int n)"
    and off: "off = num_add Math_PI (num_div s 2)"
  shows "\<bar>num_add (num_mul (of_nat (i + 1)) s) off - num_add (num_mul (of_nat i) s) off - s\<bar>
           \<le> 1 / 2 ^ 47"
proof -
  have k: "int i \<le> n" "int (i + 1) \<le> n" using i by simp_all
  note a = angle_rounding [OF n k(1) s off] and b = angle_rounding [OF n k(2) s off]
  have e: "(of_nat (i + 1) :: rat) * s = of_nat i * s + s" by (simp add: algebra_simps)
  have "(38 / 1) / 2 ^ 53 \<le> (1::rat) / 2 ^ 47" by simp
  with a b e show ?thesis by linarith
qed

lemma extent_rounding:
  fixes n :: int
  assumes n: "1 \<le> n"
    and s: "s = num_div (num_mul 2 Math_PI) (of_int n)"
    and off: "off = num_add Math_PI (num_div s 2)"
  shows "\<bar>num_add (num_mul (of_nat (nat n)) s) off - num_add (num_mul (of_nat 0) s) off
           - 2 * Math_PI\<bar> \<le> 1 / 2 ^ 47"
proof -
  have k: "int 0 \<le> n" "int (nat n) \<le> n" using n by simp_all
  note a = angle_rounding [OF n k(1) s off] and b = angle_rounding [OF n k(2) s off]
  note c = angle_constants_bounds(3) [OF n s off]
  have e: "(of_nat (nat n) :: rat) * s = of_int n * s" "(of_nat 0 :: rat) * s = 0"
    using n by simp_all
  have "(45 / 1) / 2 ^ 53 \<le> (1::rat) / 2 ^ 47" by simp
  with a b c e show ?thesis by linarith
qed

subsection \<open>Facts about \<^verbatim>\<open>#setData\<close>\<close>

lemma map_items_no_host: "map_items items k = Inl e \<Longrightarrow> e \<noteq> HostTypeError"
  by (induction items arbitrary: k)
     (auto simp: parseUnraWheelData_def split: option.splits jsval.splits sum.splits if_splits)

lemma map_items_length: "map_items items k = Inr ds \<Longrightarrow> length ds = length items"
  by (induction items arbitrary: k ds) (auto split: sum.splits)

lemma map_items_nth:
  "map_items items k = Inr ds \<Longrightarrow> j < length items \<Longrightarrow>
     parseUnraWheelData (items ! j) (k + j) = Inr (ds ! j)"
proof (induction items arbitrary: k ds j)
  case Nil
  then show ?case by simp
next
  case (Cons item items)
  show ?case
  proof (cases j)
    case 0
    with Cons.prems show ?thesis by (auto split: sum.splits)
  next
    case (Suc j')
    with Cons.prems obtain s ss where "map_items items (Suc k) = Inr ss" "ds = s # ss"
      by (auto split: sum.splits)
    with Cons.IH [of "Suc k" ss j'] Cons.prems Suc show ?thesis by simp
  qed
qed

lemma setData_raise:
  assumes "setData parse d st = (Inl e, st')"
  shows "st' = st \<and> e \<noteq> HostTypeError"
  using assms map_items_no_host unfolding setData_def
  by (auto simp: Let_def split: jsval.splits option.splits sum.splits if_splits)

lemma setData_ok:
  assumes "setData parse d st = (Inr u, st')"
  shows "\<exists>items ds.
      (d = JArr items \<or> (\<exists>s. d = JStr s \<and> parse s = Some (JArr items)))
    \<and> map_items items 0 = Inr ds \<and> items \<noteq> []
    \<and> (staticSectionCount st \<longrightarrow> int (length items) \<le> sectionCount st - 1)
    \<and> st' = commitData st ds"
  using assms unfolding setData_def
  by (auto simp: Let_def split: jsval.splits option.splits sum.splits if_splits)

lemma commitData_fields:
  "data (commitData st ds) = Some ds"
  "staticSectionCount (commitData st ds) = staticSectionCount st"
  "sectionCount (commitData st ds) =
     (if staticSectionCount st then sectionCount st else int (length ds) + 1)"
  "elements (commitData st ds) = elements st"
  "isLocked (commitData st ds) = isLocked st"
  "autoLockWheel (commitData st ds) = autoLockWheel st"
  "svg_locked (commitData st ds) = svg_locked st"
  "isMouseOver (commitData st ds) = isMouseOver st"
  "sectionPointerElem (commitData st ds) = sectionPointerElem st"
  by (simp_all add: commitData_def Let_def)

lemma commitData_hover:
  "prevHoverIndex (commitData st ds) =
     (if sectionCount (commitData st ds) = sectionCount st then prevHoverIndex st else 0)"
  "currSectionPointerRotation (commitData st ds) =
     (if sectionCount (commitData st ds) = sectionCount st then currSectionPointerRotation st else 0)"
  by (simp_all add: commitData_def Let_def)


lemma setData_sectionCount_ge2:
  assumes "setData parse d st = (Inr u, st')"
  shows "2 \<le> sectionCount st'"
proof -
  from setData_ok [OF assms] obtain items ds where
    h: "map_items items 0 = Inr ds" "items \<noteq> []"
       "staticSectionCount st \<longrightarrow> int (length items) \<le> sectionCount st - 1"
       "st' = commitData st ds"
    by blast
  have "length ds = length items" using h(1) by (rule map_items_length)
  moreover have "1 \<le> int (length items)" using h(2) by (cases items) simp_all
  ultimately show ?thesis using h(3,4) by (auto simp: commitData_fields)
qed

subsection \<open>Facts about \<^verbatim>\<open>#render\<close>\<close>

lemma elements_frame_refl:
  "\<exists>els. st = st\<lparr>elements := els\<rparr> \<and> length els = length (elements st)"
  by (rule exI [of _ "elements st"]) simp

lemma setContent_frame:
  assumes "setContent st i = (r, st')"
  shows "\<exists>els. st' = st\<lparr>elements := els\<rparr> \<and> length els = length (elements st)"
  using assms unfolding setContent_def
  by (auto simp: Let_def elements_frame_refl split: option.splits sum.splits if_splits)

lemma setContents_frame:
  "setContents is st = (r, st') \<Longrightarrow>
     \<exists>els. st' = st\<lparr>elements := els\<rparr> \<and> length els = length (elements st)"
proof (induction "is" arbitrary: st)
  case Nil
  then show ?case by (simp add: elements_frame_refl)
next
  case (Cons i rest)
  obtain r1 st1 where s1: "setContent st i = (r1, st1)" by (cases "setContent st i")
  from setContent_frame [OF s1] obtain els1 where
    e1: "st1 = st\<lparr>elements := els1\<rparr>" "length els1 = length (elements st)" by blast
  show ?case
  proof (cases r1)
    case (Inl e)
    with Cons.prems s1 have "st' = st1" by simp
    with e1 show ?thesis by blast
  next
    case (Inr u)
    with Cons.prems s1 have "setContents rest st1 = (r, st')" by simp
    from Cons.IH [OF this] obtain els where
      "st' = st1\<lparr>elements := els\<rparr>" "length els = length (elements st1)"
      by blast
    with e1 have "st' = st\<lparr>elements := els\<rparr> \<and> length els = length (elements st)" by simp
    then show ?thesis by blast
  qed
qed

lemma rebuild_frame:
  assumes "rebuild st = (r, st')"
  shows "\<exists>els p. st' = st\<lparr>elements := els, sectionPointerElem := p\<rparr>
           \<and> length els = nat (sectionCount st)"
proof (cases "0 < sectionCount st")
  case True
  let ?els = "map (\<lambda>i. newElement st (int i)) [0..<nat (sectionCount st)]"
  from True assms have "st' = st\<lparr>elements := ?els,
      sectionPointerElem := Some \<lparr>ptr_show = isMouseOver st, ptr_rotate = None\<rparr>\<rparr>"
    by (auto simp: rebuild_def Let_def)
  moreover have "length ?els = nat (sectionCount st)" by simp
  ultimately show ?thesis by blast
next
  case False
  with assms have "st' = st\<lparr>elements := [], sectionPointerElem := sectionPointerElem st\<rparr>"
    by (auto simp: rebuild_def Let_def split: option.splits)
  moreover from False have "length ([] :: section_elem list) = nat (sectionCount st)" by simp
  ultimately show ?thesis by blast
qed

lemma render_frame:
  assumes "render b st = (r, st')"
  shows "\<exists>els p. st' = st\<lparr>elements := els, sectionPointerElem := p\<rparr>
           \<and> (b \<longrightarrow> length els = nat (sectionCount st))
           \<and> (\<not> b \<longrightarrow> length els = length (elements st) \<and> p = sectionPointerElem st)"
proof (cases b)
  case True
  obtain r1 st1 where s1: "rebuild st = (r1, st1)" by (cases "rebuild st")
  from rebuild_frame [OF s1] obtain els1 p where
    e1: "st1 = st\<lparr>elements := els1, sectionPointerElem := p\<rparr>" "length els1 = nat (sectionCount st)"
    by blast
  show ?thesis
  proof (cases r1)
    case (Inl e)
    with assms s1 True have "st' = st1" by (simp add: render_def)
    with e1 True show ?thesis by blast
  next
    case (Inr u)
    with assms s1 True have "setContents [0..<nat (sectionCount st1)] st1 = (r, st')"
      by (simp add: render_def)
    from setContents_frame [OF this] obtain els where
      "st' = st1\<lparr>elements := els\<rparr>" "length els = length (elements st1)" by blast
    with e1 have "st' = st\<lparr>elements := els, sectionPointerElem := p\<rparr> \<and> length els = nat (sectionCount st)"
      by simp
    with True show ?thesis by blast
  qed
next
  case False
  with assms have "setContents [0..<nat (sectionCount st)] st = (r, st')"
    by (simp add: render_def)
  from setContents_frame [OF this] obtain els where
    "st' = st\<lparr>elements := els\<rparr>" "length els = length (elements st)" by blast
  then have "st' = st\<lparr>elements := els, sectionPointerElem := sectionPointerElem st\<rparr>
      \<and> length els = length (elements st)" by simp
  with False show ?thesis by blast
qed

lemma setContent_error: "setContent st i = (Inl e, st') \<Longrightarrow> e = HostTypeError"
  unfolding setContent_def indexToDefaultKey_def
  by (auto simp: Let_def split: option.splits sum.splits if_splits)


lemma rebuild_error: "rebuild st = (Inl e, st') \<Longrightarrow> e = HostTypeError"
  unfolding rebuild_def by (auto simp: Let_def split: option.splits)


lemma toggleLockWheel_fields:
  "sectionCount (toggleLockWheel b st) = sectionCount st"
  "staticSectionCount (toggleLockWheel b st) = staticSectionCount st"
  "prevHoverIndex (toggleLockWheel b st) = prevHoverIndex st"
  "currSectionPointerRotation (toggleLockWheel b st) = currSectionPointerRotation st"
  "data (toggleLockWheel b st) = data st"
  "length (elements (toggleLockWheel b st)) = length (elements st)"
  "autoLockWheel (toggleLockWheel b st) = autoLockWheel st"
  by (simp_all add: toggleLockWheel_def)

lemma setSections_ok:
  assumes "setSections parse d st = (Inr u, st')"
  shows "\<exists>items ds st1 st2.
      (d = JArr items \<or> (\<exists>s. d = JStr s \<and> parse s = Some (JArr items)))
    \<and> map_items items 0 = Inr ds \<and> items \<noteq> []
    \<and> (staticSectionCount st \<longrightarrow> int (length items) \<le> sectionCount st - 1)
    \<and> st1 = commitData st ds
    \<and> render ((if data st = None then 0 else sectionCount st) \<noteq> sectionCount st1) st1 = (Inr (), st2)
    \<and> st' = (if autoLockWheel st2 then toggleLockWheel False st2 else st2)"
proof -
  obtain r1 st1 where s1: "setData parse d st = (r1, st1)" by (cases "setData parse d st")
  with assms obtain u1 where r1: "r1 = Inr u1"
    by (cases r1) (auto simp: setSections_def Let_def)
  obtain r2 st2 where s2:
    "render ((if data st = None then 0 else sectionCount st) \<noteq> sectionCount st1) st1 = (r2, st2)"
    by (cases "render ((if data st = None then 0 else sectionCount st) \<noteq> sectionCount st1) st1")
  with assms s1 r1 have r2: "r2 = Inr ()"
    by (cases r2) (auto simp: setSections_def Let_def)
  from assms s1 r1 s2 r2 have
    st': "st' = (if autoLockWheel st2 then toggleLockWheel False st2 else st2)"
    by (auto simp: setSections_def Let_def)
  from setData_ok [of parse d st u1 st1] s1 r1 obtain items ds where
    "d = JArr items \<or> (\<exists>s. d = JStr s \<and> parse s = Some (JArr items))"
    "map_items items 0 = Inr ds" "items \<noteq> []"
    "staticSectionCount st \<longrightarrow> int (length items) \<le> sectionCount st - 1"
    "st1 = commitData st ds"
    by blast
  with s2 r2 st' show ?thesis by blast
qed

lemma setSections_result_fields:
  assumes "setSections parse d st = (r, st')"
  shows "st' = st \<or> (\<exists>ds. (\<exists>items. (d = JArr items \<or> (\<exists>s. d = JStr s \<and> parse s = Some (JArr items)))
              \<and> map_items items 0 = Inr ds)
          \<and> sectionCount st' = sectionCount (commitData st ds)
          \<and> staticSectionCount st' = staticSectionCount st
          \<and> prevHoverIndex st' = prevHoverIndex (commitData st ds)
          \<and> currSectionPointerRotation st' = currSectionPointerRotation (commitData st ds)
          \<and> data st' = Some ds)"
proof -
  obtain r1 st1 where s1: "setData parse d st = (r1, st1)" by (cases "setData parse d st")
  show ?thesis
  proof (cases r1)
    case (Inl e)
    with s1 setData_raise [of parse d st e st1] have "st1 = st" by simp
    with assms s1 Inl show ?thesis by (simp add: setSections_def)
  next
    case (Inr u1)
    from setData_ok [of parse d st u1 st1] s1 Inr obtain items ds where
      h: "d = JArr items \<or> (\<exists>s. d = JStr s \<and> parse s = Some (JArr items))"
         "map_items items 0 = Inr ds" "st1 = commitData st ds"
      by blast
    obtain r2 st2 where s2:
      "render ((if data st = None then 0 else sectionCount st) \<noteq> sectionCount st1) st1 = (r2, st2)"
      by (cases "render ((if data st = None then 0 else sectionCount st) \<noteq> sectionCount st1) st1")
    from render_frame [OF s2] obtain els p where
      e2: "st2 = st1\<lparr>elements := els, sectionPointerElem := p\<rparr>" by blast
    from assms s1 Inr s2 have "st' = st2 \<or> st' = toggleLockWheel False st2"
      by (cases r2) (auto simp: setSections_def Let_def)
    then have "sectionCount st' = sectionCount st1 \<and> staticSectionCount st' = staticSectionCount st1
        \<and> prevHoverIndex st' = prevHoverIndex st1
        \<and> currSectionPointerRotation st' = currSectionPointerRotation st1
        \<and> data st' = data st1"
      using e2 by (auto simp: toggleLockWheel_fields)
    with h show ?thesis by (auto simp: commitData_fields)
  qed
qed


subsection \<open>The example wheels, evaluated\<close>

lemmas eval_defs = construct_def setSections_def setData_def commitData_def render_def rebuild_def
  setContent_def newElement_def parseUnraWheelData_def js_index_def defaultKeys_def
  initial_wheel_def static_attrs_def dynamic_attrs_def example_data_def toggleLockWheel_def
  indexToDefaultKey_def this_defaultKeys_def Let_def upt_rec

lemma construct_dynamic: "construct no_json dynamic_attrs = Inr initial_wheel"
  by (simp add: construct_def dynamic_attrs_def initial_wheel_def)

lemma example_dynamic_run:
  "setSections no_json (JArr example_data) initial_wheel =
     (Inr (), wheel_after dynamic_attrs example_data)"
proof -
  have "fst (setSections no_json (JArr example_data) initial_wheel) = Inr ()"
    by (simp add: eval_defs)
  then show ?thesis
    by (simp add: wheel_after_def construct_dynamic prod_eq_iff)
qed

lemma example_dynamic_fields:
  "data (wheel_after dynamic_attrs example_data) \<noteq> None"
  "sectionCount (wheel_after dynamic_attrs example_data) = 6"
  "prevHoverIndex (wheel_after dynamic_attrs example_data) = 0"
  "sectionPointerElem (wheel_after dynamic_attrs example_data) \<noteq> None"
  "length (the (data (wheel_after dynamic_attrs example_data))) = 5"
  by (simp_all add: wheel_after_def construct_dynamic eval_defs)


subsection \<open>The hover distance\<close>

lemma hoverDistance_eq:
  "hoverDistance n p i =
     (let a = (if \<bar>n - p + i\<bar> < \<bar>- (n + p - i)\<bar> then n - p + i else - (n + p - i))
      in if \<bar>a\<bar> < \<bar>i - p\<bar> then a else i - p)"
  by (simp add: hoverDistance_def shorter_def Let_def)

lemma hoverDistance_bounds:
  assumes "2 \<le> n" "0 \<le> p" "p < n" "0 \<le> i" "i < n" "i \<noteq> p"
  shows "hoverDistance n p i \<in> {i - p, n - p + i, - (n + p - i)}"
    and "\<bar>hoverDistance n p i\<bar> \<le> \<bar>i - p\<bar>"
    and "\<bar>hoverDistance n p i\<bar> \<le> \<bar>n - p + i\<bar>"
    and "\<bar>hoverDistance n p i\<bar> \<le> \<bar>- (n + p - i)\<bar>"
    and "2 * \<bar>hoverDistance n p i\<bar> \<le> n"
  using assms by (auto simp: hoverDistance_eq Let_def)

lemma onSectionHover_accepted:
  assumes "data st = Some ds" and "sectionPointerElem st = Some ptr"
    and "index \<noteq> prevHoverIndex st"
    and "index \<le> int (length ds) - 1 \<or> index = sectionCount st - 1"
  shows "onSectionHover index st =
     (let r = num_add (currSectionPointerRotation st)
                (num_mul (num_div 360 (of_int (sectionCount st)))
                   (of_int (hoverDistance (sectionCount st) (prevHoverIndex st) index)))
      in (Inr (), st\<lparr>sectionPointerElem := Some (ptr\<lparr>ptr_rotate := Some r\<rparr>),
                     currSectionPointerRotation := r, prevHoverIndex := index\<rparr>))"
  using assms by (auto simp: onSectionHover_def Let_def)

text \<open>
  Claim C1. On a wheel with \<open>n \<ge> 2\<close> sections, a hover that moves from index \<open>p\<close> to a
  different accepted index (both in \<open>[0, n)\<close>) is carried out: the pointer is rotated by
  \<open>360 / n\<close> degrees times the chosen step count \<open>hoverDistance n p index\<close>. That step count
  is one of the three candidates direct, forward-wrap and backward-wrap, no candidate has a
  smaller absolute value, and twice its magnitude is at most \<open>n\<close>, so that it never exceeds
  \<open>n / 2\<close>. With six sections, the hover from index 0 to index 4 takes \<open>-2\<close> steps.
\<close>

theorem hover_shortest_path:
  assumes "data st = Some ds" and "sectionPointerElem st = Some ptr"
    and "sectionCount st = n" and "prevHoverIndex st = p"
    and "2 \<le> n" and "0 \<le> p" and "p < n" and "0 \<le> index" and "index < n"
    and "index \<noteq> p"
    and "index \<le> int (length ds) - 1 \<or> index = n - 1"
  shows "(\<exists>r. onSectionHover index st =
            (Inr (), st\<lparr>sectionPointerElem := Some (ptr\<lparr>ptr_rotate := Some r\<rparr>),
                        currSectionPointerRotation := r, prevHoverIndex := index\<rparr>)
          \<and> r = num_add (currSectionPointerRotation st)
                 (num_mul (num_div 360 (of_int n)) (of_int (hoverDistance n p index))))
       \<and> hoverDistance n p index \<in> {index - p, n - p + index, - (n + p - index)}
       \<and> \<bar>hoverDistance n p index\<bar> \<le> \<bar>index - p\<bar>
       \<and> \<bar>hoverDistance n p index\<bar> \<le> \<bar>n - p + index\<bar>
       \<and> \<bar>hoverDistance n p index\<bar> \<le> \<bar>- (n + p - index)\<bar>
       \<and> 2 * \<bar>hoverDistance n p index\<bar> \<le> n
       \<and> hoverDistance 6 0 4 = - 2"
proof -
  have "index \<noteq> prevHoverIndex st"
    and "index \<le> int (length ds) - 1 \<or> index = sectionCount st - 1"
    using assms by auto
  from onSectionHover_accepted [OF assms(1) assms(2) this]
  have "\<exists>r. onSectionHover index st =
            (Inr (), st\<lparr>sectionPointerElem := Some (ptr\<lparr>ptr_rotate := Some r\<rparr>),
                        currSectionPointerRotation := r, prevHoverIndex := index\<rparr>)
          \<and> r = num_add (currSectionPointerRotation st)
                 (num_mul (num_div 360 (of_int n)) (of_int (hoverDistance n p index)))"
    using assms(3,4) by (simp add: Let_def)
  moreover have "hoverDistance 6 0 4 = - 2"
    by (simp add: hoverDistance_eq)
  ultimately show ?thesis
    using hoverDistance_bounds [OF assms(5-10)] by blast
qed

theorem hover_shortest_path_witness:
  "fst (onSectionHover 4 (wheel_after dynamic_attrs example_data)) = Inr ()
   \<and> prevHoverIndex (snd (onSectionHover 4 (wheel_after dynamic_attrs example_data))) = 4
   \<and> 2 * \<bar>hoverDistance 6 0 4\<bar> \<le> 6
   \<and> hoverDistance 6 0 4 = - 2"
proof -
  let ?w = "wheel_after dynamic_attrs example_data"
  obtain ds where ds: "data ?w = Some ds" using example_dynamic_fields(1) by blast
  obtain ptr where ptr: "sectionPointerElem ?w = Some ptr" using example_dynamic_fields(4) by blast
  have len: "4 \<le> int (length ds) - 1 \<or> (4::int) = 6 - 1"
    using example_dynamic_fields(5) ds by simp
  have n: "(2::int) \<le> 6" "(0::int) \<le> 0" "(0::int) < 6" "(0::int) \<le> 4" "(4::int) < 6"
    "(4::int) \<noteq> 0"
    by simp_all
  note t = hover_shortest_path
    [OF ds ptr example_dynamic_fields(2) example_dynamic_fields(3) n len]
  from t obtain r where
    "onSectionHover 4 ?w =
       (Inr (), ?w\<lparr>sectionPointerElem := Some (ptr\<lparr>ptr_rotate := Some r\<rparr>),
                   currSectionPointerRotation := r, prevHoverIndex := 4\<rparr>)"
    by blast
  then have "fst (onSectionHover 4 ?w) = Inr ()"
    and "prevHoverIndex (snd (onSectionHover 4 ?w)) = 4"
    by simp_all
  moreover from t have "2 * \<bar>hoverDistance 6 0 4\<bar> \<le> 6" and "hoverDistance 6 0 4 = - 2"
    by blast+
  ultimately show ?thesis by blast
qed

text \<open>
  Claim C2 says that among candidates of equal magnitude the first one in the order
  forward-wrap, backward-wrap, direct is kept, so that four sections and a hover from index 0
  to index 2 would give the backward-wrap value \<open>-2\<close>. The callback of the reduce keeps the
  accumulated candidate only when it is strictly shorter than the next one, so the hover
  gives the direct value \<open>2\<close>.
\<close>

theorem hover_tie_counterexample:
  "hoverDistance 4 0 2 = 2 \<and> hoverDistance 4 0 2 \<noteq> - (4 + 0 - 2)"
  by (simp add: hoverDistance_eq)

text \<open>
  Claim C2, amended. Among candidates of equal magnitude the last one in the order
  forward-wrap, backward-wrap, direct is kept: the direct candidate is chosen whenever its
  magnitude is at most that of both wrap candidates, otherwise the backward-wrap candidate
  whenever its magnitude is at most that of the forward-wrap candidate, otherwise the
  forward-wrap candidate. With four sections, the hover from index 0 to index 2 takes the
  direct \<open>+2\<close> steps.
\<close>

theorem hover_tie_keeps_last:
  "hoverDistance n p index =
     (if \<bar>index - p\<bar> \<le> \<bar>n - p + index\<bar> \<and> \<bar>index - p\<bar> \<le> \<bar>- (n + p - index)\<bar>
      then index - p
      else if \<bar>- (n + p - index)\<bar> \<le> \<bar>n - p + index\<bar> then - (n + p - index)
      else n - p + index)
   \<and> hoverDistance 4 0 2 = 2"
  by (auto simp: hoverDistance_eq Let_def)

subsection \<open>The hover state across \<^verbatim>\<open>setSections\<close>\<close>

text \<open>
  Claim C6. After a successful \<^verbatim>\<open>setSections\<close>, the hover index and the pointer rotation
  are 0 if the section count changed and are what they were if it did not. A further
  \<^verbatim>\<open>setSections\<close> with the same list, on any wheel that still has that section count and
  mode, leaves the hover index and the pointer rotation as they are, whatever their values.
\<close>

theorem setSections_hover_reset:
  assumes "setSections parse d st = (Inr u, st')"
  shows "(sectionCount st' \<noteq> sectionCount st \<longrightarrow>
            prevHoverIndex st' = 0 \<and> currSectionPointerRotation st' = 0)
       \<and> (sectionCount st' = sectionCount st \<longrightarrow>
            prevHoverIndex st' = prevHoverIndex st
          \<and> currSectionPointerRotation st' = currSectionPointerRotation st)
       \<and> (\<forall>w r w'. sectionCount w = sectionCount st'
            \<and> staticSectionCount w = staticSectionCount st'
            \<and> setSections parse d w = (r, w') \<longrightarrow>
            prevHoverIndex w' = prevHoverIndex w
          \<and> currSectionPointerRotation w' = currSectionPointerRotation w)"
proof -
  from setSections_ok [OF assms] obtain items ds st1 st2 where
    h: "d = JArr items \<or> (\<exists>s. d = JStr s \<and> parse s = Some (JArr items))"
       "map_items items 0 = Inr ds"
       "st1 = commitData st ds"
       "render ((if data st = None then 0 else sectionCount st) \<noteq> sectionCount st1) st1 = (Inr (), st2)"
       "st' = (if autoLockWheel st2 then toggleLockWheel False st2 else st2)"
    by blast
  from render_frame [OF h(4)] obtain els p where
    e2: "st2 = st1\<lparr>elements := els, sectionPointerElem := p\<rparr>" by blast
  have f: "sectionCount st' = sectionCount (commitData st ds)"
          "staticSectionCount st' = staticSectionCount st"
          "prevHoverIndex st' = prevHoverIndex (commitData st ds)"
          "currSectionPointerRotation st' = currSectionPointerRotation (commitData st ds)"
    using h(3,5) e2 by (auto simp: toggleLockWheel_fields commitData_fields)
  have 1: "sectionCount st' \<noteq> sectionCount st \<longrightarrow>
            prevHoverIndex st' = 0 \<and> currSectionPointerRotation st' = 0"
    using f by (simp add: commitData_hover)
  have 2: "sectionCount st' = sectionCount st \<longrightarrow>
            prevHoverIndex st' = prevHoverIndex st
          \<and> currSectionPointerRotation st' = currSectionPointerRotation st"
    using f by (simp add: commitData_hover)
  have 3: "prevHoverIndex w' = prevHoverIndex w
          \<and> currSectionPointerRotation w' = currSectionPointerRotation w"
    if w: "sectionCount w = sectionCount st'" "staticSectionCount w = staticSectionCount st'"
       "setSections parse d w = (r, w')" for w r w'
  proof -
    from setSections_result_fields [OF w(3)] consider "w' = w"
      | ds' where "\<exists>items. (d = JArr items \<or> (\<exists>s. d = JStr s \<and> parse s = Some (JArr items)))
              \<and> map_items items 0 = Inr ds'"
          "sectionCount w' = sectionCount (commitData w ds')"
          "prevHoverIndex w' = prevHoverIndex (commitData w ds')"
          "currSectionPointerRotation w' = currSectionPointerRotation (commitData w ds')"
      by blast
    then show ?thesis
    proof cases
      case 1
      then show ?thesis by simp
    next
      case 2
      from 2(1) h(1,2) have "ds' = ds" by auto
      with 2 w(1,2) f(1,2) have "sectionCount (commitData w ds) = sectionCount w"
        by (simp add: commitData_fields)
      with 2 \<open>ds' = ds\<close> show ?thesis by (simp add: commitData_hover)
    qed
  qed
  from 1 2 3 show ?thesis by blast
qed

theorem setSections_hover_reset_witness:
  "setSections no_json (JArr example_data) initial_wheel
     = (Inr (), wheel_after dynamic_attrs example_data)
   \<and> sectionCount (wheel_after dynamic_attrs example_data) \<noteq> sectionCount initial_wheel
   \<and> prevHoverIndex (wheel_after dynamic_attrs example_data) = 0
   \<and> currSectionPointerRotation (wheel_after dynamic_attrs example_data) = 0
   \<and> prevHoverIndex (snd (setSections no_json (JArr example_data)
         ((wheel_after dynamic_attrs example_data)
            \<lparr>prevHoverIndex := 4, currSectionPointerRotation := - 120\<rparr>))) = 4
   \<and> currSectionPointerRotation (snd (setSections no_json (JArr example_data)
         ((wheel_after dynamic_attrs example_data)
            \<lparr>prevHoverIndex := 4, currSectionPointerRotation := - 120\<rparr>))) = - 120"
proof -
  let ?w = "(wheel_after dynamic_attrs example_data)
              \<lparr>prevHoverIndex := 4, currSectionPointerRotation := - 120\<rparr>"
  note t = setSections_hover_reset [OF example_dynamic_run]
  have c: "sectionCount (wheel_after dynamic_attrs example_data) \<noteq> sectionCount initial_wheel"
    by (simp add: example_dynamic_fields initial_wheel_def)
  with t have z: "prevHoverIndex (wheel_after dynamic_attrs example_data) = 0"
    "currSectionPointerRotation (wheel_after dynamic_attrs example_data) = 0"
    by simp_all
  from t have "\<forall>w r w'. sectionCount w = sectionCount (wheel_after dynamic_attrs example_data)
            \<and> staticSectionCount w = staticSectionCount (wheel_after dynamic_attrs example_data)
            \<and> setSections no_json (JArr example_data) w = (r, w') \<longrightarrow>
            prevHoverIndex w' = prevHoverIndex w
          \<and> currSectionPointerRotation w' = currSectionPointerRotation w"
    by blast
  from this [rule_format, of ?w "fst (setSections no_json (JArr example_data) ?w)"
      "snd (setSections no_json (JArr example_data) ?w)"]
  have "prevHoverIndex (snd (setSections no_json (JArr example_data) ?w)) = 4
      \<and> currSectionPointerRotation (snd (setSections no_json (JArr example_data) ?w)) = - 120"
    by simp
  with c z example_dynamic_run show ?thesis by blast
qed

subsection \<open>The invariant of the wheel\<close>

text \<open>
  \<open>wheel_inv\<close> holds of every constructed wheel and is kept by \<^verbatim>\<open>setSections\<close>, whether it
  returns or raises, and by every event callback. With it, a wheel that has data has at
  least two sections, so the hover callback never divides by zero.
\<close>

lemma construct_no_data:
  assumes "construct parse a = Inr w" and "attr_data a = None"
  shows "data w = None \<and> elements w = [] \<and> isLocked w"
  using assms unfolding construct_def
  by (auto simp: initial_wheel_def Let_def split: if_splits count_attr.splits)

lemma rebuild_pointer:
  assumes "rebuild st = (r, st')" and "0 < sectionCount st"
  shows "sectionPointerElem st' \<noteq> None"
  using assms by (auto simp: rebuild_def Let_def split: option.splits)

lemma setContents_pointer:
  assumes "setContents is st = (r, st')"
  shows "sectionPointerElem st' = sectionPointerElem st"
proof -
  from setContents_frame [OF assms] obtain els where "st' = st\<lparr>elements := els\<rparr>" by blast
  then show ?thesis by simp
qed

lemma render_pointer:
  assumes "render True st = (r, st')" and "0 < sectionCount st"
  shows "sectionPointerElem st' \<noteq> None"
proof -
  obtain r1 st1 where s1: "rebuild st = (r1, st1)" by (cases "rebuild st")
  note p = rebuild_pointer [OF s1 assms(2)]
  show ?thesis
  proof (cases r1)
    case (Inl e)
    with assms(1) s1 have "st' = st1" by (simp add: render_def)
    with p show ?thesis by simp
  next
    case (Inr u)
    with assms(1) s1 have "setContents [0..<nat (sectionCount st1)] st1 = (r, st')"
      by (simp add: render_def)
    from setContents_pointer [OF this] p show ?thesis by simp
  qed
qed

lemma commitData_angles:
  "angleStep (commitData st ds)
     = num_div (num_mul 2 Math_PI) (of_int (sectionCount (commitData st ds)))"
  "angleOffset (commitData st ds)
     = num_add Math_PI (num_div (angleStep (commitData st ds)) 2)"
  by (simp_all add: commitData_def Let_def)

lemma construct_inv:
  assumes "construct parse a = Inr w"
  shows "wheel_inv w"
proof (cases "attr_data a")
  case None
  from construct_no_data [OF assms None] show ?thesis by (simp add: wheel_inv_def)
next
  case (Some s)
  from assms Some obtain st1 u st2 u' where
    h: "setData parse (JStr s) st1 = (Inr u, st2)"
       "render True (st2\<lparr>isLocked := False\<rparr>) = (Inr u', w)"
    unfolding construct_def
    by (auto simp: Let_def split: if_splits count_attr.splits sum.splits prod.splits)
  from setData_ok [OF h(1)] obtain items ds where
    d: "map_items items 0 = Inr ds" "items \<noteq> []"
       "staticSectionCount st1 \<longrightarrow> int (length items) \<le> sectionCount st1 - 1"
       "st2 = commitData st1 ds"
    by blast
  have len: "length ds = length items" using d(1) by (rule map_items_length)
  have ne: "ds \<noteq> []" using len d(2) by auto
  have n2: "2 \<le> sectionCount st2" using h(1) by (rule setData_sectionCount_ge2)
  have f1: "data st2 = Some ds" "int (length ds) \<le> sectionCount st2 - 1"
    "angleStep st2 = num_div (num_mul 2 Math_PI) (of_int (sectionCount st2))"
    "angleOffset st2 = num_add Math_PI (num_div (angleStep st2) 2)"
    using d(3) len unfolding d(4) by (simp_all add: commitData_fields commitData_angles)
  from render_frame [OF h(2)] obtain els p where
    w: "w = st2\<lparr>isLocked := False, elements := els, sectionPointerElem := p\<rparr>"
    "length els = nat (sectionCount st2)"
    by auto
  from render_pointer [OF h(2)] n2 have "sectionPointerElem w \<noteq> None" by simp
  with w ne f1 show ?thesis
    by (simp add: wheel_inv_def)
qed

lemma setSections_inv:
  assumes "wheel_inv st" and "setSections parse d st = (r, st')"
  shows "wheel_inv st'"
proof -
  obtain r1 st1 where s1: "setData parse d st = (r1, st1)" by (cases "setData parse d st")
  show ?thesis
  proof (cases r1)
    case (Inl e)
    with s1 setData_raise [of parse d st e st1] have "st1 = st" by simp
    with assms s1 Inl show ?thesis by (simp add: setSections_def)
  next
    case (Inr u1)
    with s1 have s1': "setData parse d st = (Inr u1, st1)" by simp
    from setData_ok [OF s1'] obtain items ds where
      d: "map_items items 0 = Inr ds" "items \<noteq> []"
         "staticSectionCount st \<longrightarrow> int (length items) \<le> sectionCount st - 1"
         "st1 = commitData st ds"
      by blast
    have len: "length ds = length items" using d(1) by (rule map_items_length)
    have ne: "ds \<noteq> []" using len d(2) by auto
    have f1: "data st1 = Some ds" "elements st1 = elements st"
      "int (length ds) \<le> sectionCount st1 - 1"
      "sectionPointerElem st1 = sectionPointerElem st"
      "angleStep st1 = num_div (num_mul 2 Math_PI) (of_int (sectionCount st1))"
      "angleOffset st1 = num_add Math_PI (num_div (angleStep st1) 2)"
      using d(3) len unfolding d(4) by (simp_all add: commitData_fields commitData_angles)
    define b where "b = ((if data st = None then 0 else sectionCount st) \<noteq> sectionCount st1)"
    obtain r2 st2 where s2: "render b st1 = (r2, st2)" by (cases "render b st1")
    from render_frame [OF s2] obtain els p where
      e2: "st2 = st1\<lparr>elements := els, sectionPointerElem := p\<rparr>"
          "b \<longrightarrow> length els = nat (sectionCount st1)"
          "\<not> b \<longrightarrow> length els = length (elements st1) \<and> p = sectionPointerElem st1"
      by blast
    have n2: "2 \<le> sectionCount st1" using s1' by (rule setData_sectionCount_ge2)
    have le: "length els = nat (sectionCount st1) \<and> sectionPointerElem st2 \<noteq> None"
    proof (cases b)
      case True
      with s2 n2 render_pointer [of st1 r2 st2] have "sectionPointerElem st2 \<noteq> None" by simp
      with True e2(2) show ?thesis by simp
    next
      case False
      then have eq: "(if data st = None then 0 else sectionCount st) = sectionCount st1"
        by (simp add: b_def)
      with n2 have "data st \<noteq> None" by (cases "data st") simp_all
      then obtain ds0 where ds0: "data st = Some ds0" by blast
      with eq have "sectionCount st = sectionCount st1" by simp
      moreover from assms(1) ds0 have "length (elements st) = nat (sectionCount st)"
        "sectionPointerElem st \<noteq> None"
        by (simp_all add: wheel_inv_def)
      ultimately show ?thesis using False e2(1,3) f1(2,4) by simp
    qed
    have f2: "data st2 = Some ds" "sectionCount st2 = sectionCount st1"
      "length (elements st2) = nat (sectionCount st1)"
      "angleStep st2 = angleStep st1" "angleOffset st2 = angleOffset st1"
      using f1(1) le by (simp_all add: e2(1))
    have "setSections parse d st =
        (case render b st1 of
           (Inl e, st2) \<Rightarrow> (Inl e, st2)
         | (Inr u, st2) \<Rightarrow> (Inr (), if autoLockWheel st2 then toggleLockWheel False st2 else st2))"
      by (simp add: setSections_def Let_def s1' b_def)
    with assms(2) s2 have "st' = st2 \<or> st' = toggleLockWheel False st2"
      by (cases r2) (auto split: if_splits)
    then have "data st' = Some ds" "sectionCount st' = sectionCount st1"
      "length (elements st') = nat (sectionCount st1)"
      "sectionPointerElem st' \<noteq> None"
      "angleStep st' = angleStep st1" "angleOffset st' = angleOffset st1"
      using f2 le by (auto simp: toggleLockWheel_def)
    with ne f1(3,5,6) show ?thesis by (simp add: wheel_inv_def)
  qed
qed

lemma toggleLockWheel_frame:
  "\<exists>els lk sl. toggleLockWheel b st = st\<lparr>elements := els, isLocked := lk, svg_locked := sl\<rparr>
     \<and> length els = length (elements st)"
proof (cases "b = isLocked st")
  case True
  have "st = st\<lparr>elements := elements st, isLocked := isLocked st, svg_locked := svg_locked st\<rparr>"
    by simp
  with True show ?thesis unfolding toggleLockWheel_def by (metis (full_types))
next
  case False
  let ?els = "map (\<lambda>el. el\<lparr>el_tabindex := (if b then - 1 else 0)\<rparr>) (elements st)"
  from False have "toggleLockWheel b st = st\<lparr>elements := ?els, isLocked := b, svg_locked := b\<rparr>"
    by (simp add: toggleLockWheel_def)
  moreover have "length ?els = length (elements st)" by simp
  ultimately show ?thesis by blast
qed

lemma onSectionSelect_state:
  "snd (onSectionSelect i st) = st
   \<or> (\<exists>elem. js_index (elements st) i = Some elem
        \<and> snd (onSectionSelect i st) =
            (let st1 = (if \<not> el_selected elem
                        then st\<lparr>elements := (elements st)[nat i := elem\<lparr>el_selected := True\<rparr>]\<rparr>
                        else st)
             in if autoLockWheel st1 then toggleLockWheel True st1 else st1))"
proof (cases "js_index (elements st) i")
  case None
  have "snd (onSectionSelect i st) = st"
    unfolding onSectionSelect_def Let_def None option.case
    by (simp split: sum.splits bool.splits)
  then show ?thesis by simp
next
  case (Some elem)
  define st1 where "st1 = (if \<not> el_selected elem
                        then st\<lparr>elements := (elements st)[nat i := elem\<lparr>el_selected := True\<rparr>]\<rparr>
                        else st)"
  define st2 where "st2 = (if autoLockWheel st1 then toggleLockWheel True st1 else st1)"
  have t: "snd (case selectedValue i st2 of Inl e \<Rightarrow> (Inl e, st2) | Inr v \<Rightarrow> (Inr (Some v), st2)) = st2"
    by (cases "selectedValue i st2") simp_all
  have "snd (onSectionSelect i st) = st \<or> snd (onSectionSelect i st) = st2"
    unfolding onSectionSelect_def Let_def Some option.case
    unfolding st1_def [symmetric] st2_def [symmetric]
    using t by (simp split: sum.splits bool.splits)
  with Some show ?thesis by (auto simp: st1_def st2_def Let_def)
qed

lemma onSectionSelect_frame:
  assumes "onSectionSelect i st = (r, st')"
  shows "\<exists>els lk sl. st' = st\<lparr>elements := els, isLocked := lk, svg_locked := sl\<rparr>
     \<and> length els = length (elements st)"
proof -
  have refl: "\<exists>els lk sl. st = st\<lparr>elements := els, isLocked := lk, svg_locked := sl\<rparr>
     \<and> length els = length (elements st)"
    using toggleLockWheel_frame [of "isLocked st" st] by (simp add: toggleLockWheel_def)
  from onSectionSelect_state [of i st] assms
  consider "st' = st"
    | elem where "st' =
            (let st1 = (if \<not> el_selected elem
                        then st\<lparr>elements := (elements st)[nat i := elem\<lparr>el_selected := True\<rparr>]\<rparr>
                        else st)
             in if autoLockWheel st1 then toggleLockWheel True st1 else st1)"
    by auto
  then show ?thesis
  proof cases
    case 1
    with refl show ?thesis by simp
  next
    case 2
    define st1 where "st1 = (if \<not> el_selected elem
                        then st\<lparr>elements := (elements st)[nat i := elem\<lparr>el_selected := True\<rparr>]\<rparr>
                        else st)"
    have a: "\<exists>els. st1 = st\<lparr>elements := els\<rparr> \<and> length els = length (elements st)"
      unfolding st1_def using elements_frame_refl [of st] by auto
    then obtain els1 where e1: "st1 = st\<lparr>elements := els1\<rparr>" "length els1 = length (elements st)"
      by blast
    from 2 have "st' = st1 \<or> st' = toggleLockWheel True st1"
      by (simp add: st1_def Let_def split: if_splits)
    then show ?thesis
    proof
      assume "st' = st1"
      with e1 have "st' = st\<lparr>elements := els1, isLocked := isLocked st, svg_locked := svg_locked st\<rparr>"
        by simp
      with e1(2) show ?thesis by blast
    next
      assume t: "st' = toggleLockWheel True st1"
      from toggleLockWheel_frame [of True st1] obtain els lk sl where
        "toggleLockWheel True st1 = st1\<lparr>elements := els, isLocked := lk, svg_locked := sl\<rparr>"
        "length els = length (elements st1)"
        by blast
      with t e1 have "st' = st\<lparr>elements := els, isLocked := lk, svg_locked := sl\<rparr>
          \<and> length els = length (elements st)"
        by simp
      then show ?thesis by blast
    qed
  qed
qed

lemma onKeyPress_frame:
  assumes "onKeyPress k st = (r, st')"
  shows "\<exists>els lk sl. st' = st\<lparr>elements := els, isLocked := lk, svg_locked := sl\<rparr>
     \<and> length els = length (elements st)"
proof -
  have "st' = st \<or> (\<exists>i. onSectionSelect i st = (r, st'))"
    using assms unfolding onKeyPress_def
    by (auto split: if_splits option.splits)
  then show ?thesis
  proof
    assume "st' = st"
    with toggleLockWheel_frame [of "isLocked st" st] show ?thesis
      by (simp add: toggleLockWheel_def)
  next
    assume "\<exists>i. onSectionSelect i st = (r, st')"
    then obtain i where "onSectionSelect i st = (r, st')" by blast
    then show ?thesis by (rule onSectionSelect_frame)
  qed
qed

lemma onSectionHover_frame:
  assumes "onSectionHover i st = (r, st')"
  shows "st' = st \<or> (\<exists>p rot. st' = st\<lparr>sectionPointerElem := Some p,
            currSectionPointerRotation := rot, prevHoverIndex := i\<rparr>)"
  using assms unfolding onSectionHover_def
  by (auto simp: Let_def split: if_splits option.splits)

lemma handlers_inv:
  assumes "wheel_inv st"
  shows "onSectionSelect i st = (r, st') \<Longrightarrow> wheel_inv st'"
    and "onSectionClick i st = (r, st') \<Longrightarrow> wheel_inv st'"
    and "onKeyPress k st = (r, st') \<Longrightarrow> wheel_inv st'"
    and "onSectionHover i st = (r', st') \<Longrightarrow> wheel_inv st'"
    and "wheel_inv (toggleLockWheel b st)"
    and "wheel_inv (onMouseEnter st)" and "wheel_inv (onMouseLeave st)"
proof -
  have k: "wheel_inv (st\<lparr>elements := els, isLocked := lk, svg_locked := sl\<rparr>)"
    if "length els = length (elements st)" for els lk sl
    using assms that by (simp add: wheel_inv_def split: option.splits)
  show "onSectionSelect i st = (r, st') \<Longrightarrow> wheel_inv st'"
    using k by (auto dest!: onSectionSelect_frame)
  show "onSectionClick i st = (r, st') \<Longrightarrow> wheel_inv st'"
    using k by (auto simp: onSectionClick_def dest!: onSectionSelect_frame)
  show "onKeyPress k st = (r, st') \<Longrightarrow> wheel_inv st'"
    using k by (auto dest!: onKeyPress_frame)
  show "onSectionHover i st = (r', st') \<Longrightarrow> wheel_inv st'"
    using assms by (auto dest!: onSectionHover_frame simp: wheel_inv_def split: option.splits)
  show "wheel_inv (toggleLockWheel b st)"
    using k toggleLockWheel_frame [of b st] by auto
  show "wheel_inv (onMouseEnter st)" and "wheel_inv (onMouseLeave st)"
    using assms by (auto simp: wheel_inv_def onMouseEnter_def onMouseLeave_def split: option.splits)
qed

lemma wheel_inv_sectionCount:
  "wheel_inv st \<Longrightarrow> data st = Some ds \<Longrightarrow> 2 \<le> sectionCount st"
  by (cases ds) (auto simp: wheel_inv_def)

lemma locked_keypress_ignored: "isLocked st \<Longrightarrow> onKeyPress k st = (Inr None, st)"
  by (simp add: onKeyPress_def)

subsection \<open>Selecting a section\<close>

lemma construct_static:
  "construct no_json static_attrs =
     Inr (initial_wheel\<lparr>staticSectionCount := True, sectionCount := 11\<rparr>)"
  by (simp add: construct_def static_attrs_def initial_wheel_def)

lemma example_static_run:
  "setSections no_json (JArr (take 3 example_data))
     (initial_wheel\<lparr>staticSectionCount := True, sectionCount := 11\<rparr>) =
     (Inr (), wheel_after static_attrs (take 3 example_data))"
proof -
  have "fst (setSections no_json (JArr (take 3 example_data))
     (initial_wheel\<lparr>staticSectionCount := True, sectionCount := 11\<rparr>)) = Inr ()"
    by (simp add: eval_defs)
  then show ?thesis
    by (simp add: wheel_after_def construct_static prod_eq_iff)
qed

lemma example_static_fields:
  "data (wheel_after static_attrs (take 3 example_data)) \<noteq> None"
  "sectionCount (wheel_after static_attrs (take 3 example_data)) = 11"
  "length (the (data (wheel_after static_attrs (take 3 example_data)))) = 3"
  "length (elements (wheel_after static_attrs (take 3 example_data))) = 11"
  "isLocked (wheel_after static_attrs (take 3 example_data))"
  "\<not> svg_locked (wheel_after static_attrs (take 3 example_data))"
  "map el_empty (elements (wheel_after static_attrs (take 3 example_data)))
     = [False, False, False, True, True, True, True, True, True, True, False]"
  "map el_back (elements (wheel_after static_attrs (take 3 example_data)))
     = [False, False, False, False, False, False, False, False, False, False, True]"
  by (simp_all add: wheel_after_def construct_static eval_defs)

text \<open>
  Claim C8. On a wheel with a list of length \<open>L\<close> and \<open>n\<close> sections (a wheel as
  \<open>wheel_inv\<close> describes it, with one element per section), selecting a blank filler index
  \<open>i\<close> with \<open>L \<le> i < n - 1\<close> returns without an event and leaves the wheel as it is,
  locked or not. With \<^verbatim>\<open>section-count="10"\<close> (11 sections) and three items, the rendering
  marks the indices 3 to 9 as blank and index 10 as the back section, and index 5 is such
  an index.
\<close>

theorem blank_section_unselectable:
  assumes "data st = Some ds" and "wheel_inv st"
    and "int (length ds) \<le> i" and "i < sectionCount st - 1"
  shows "onSectionSelect i st = (Inr None, st) \<and> onSectionClick i st = (Inr None, st)"
proof -
  from assms have "i \<noteq> int (length (elements st)) - 1"
    by (simp add: wheel_inv_def)
  moreover from assms have "js_index ds i = None"
    by (simp add: js_index_def)
  ultimately show ?thesis
    using assms(1) by (simp add: onSectionClick_def onSectionSelect_def)
qed

theorem blank_section_unselectable_witness:
  "map el_empty (elements (wheel_after static_attrs (take 3 example_data)))
     = [False, False, False, True, True, True, True, True, True, True, False]
   \<and> map el_back (elements (wheel_after static_attrs (take 3 example_data)))
     = [False, False, False, False, False, False, False, False, False, False, True]
   \<and> onSectionSelect 5 (wheel_after static_attrs (take 3 example_data))
     = (Inr None, wheel_after static_attrs (take 3 example_data))
   \<and> onSectionClick 5 (wheel_after static_attrs (take 3 example_data))
     = (Inr None, wheel_after static_attrs (take 3 example_data))"
proof -
  let ?w = "wheel_after static_attrs (take 3 example_data)"
  obtain ds where ds: "data ?w = Some ds" using example_static_fields(1) by blast
  with example_static_fields(3) have len: "length ds = 3" by simp
  have inv: "wheel_inv ?w"
    using construct_inv [OF construct_static] example_static_run by (rule setSections_inv)
  have "int (length ds) \<le> 5" and "5 < sectionCount ?w - 1"
    using len example_static_fields(2) by simp_all
  from blank_section_unselectable [OF ds inv this] example_static_fields(7,8)
  show ?thesis by blast
qed

subsection \<open>The lock\<close>

text \<open>
  Claim C3 at a failing input. An element with \<^verbatim>\<open>section-count="10"\<close> and no
  \<^verbatim>\<open>data\<close> attribute is constructed locked; \<^verbatim>\<open>setSections\<close> with three items renders it
  and leaves it locked (there is no \<^verbatim>\<open>auto-lock\<close>). On this locked wheel a key press is
  ignored, and a click on section 0 dispatches \<^verbatim>\<open>section-select\<close> with the value of the
  first item: \<^verbatim>\<open>#onSectionClick\<close> and \<^verbatim>\<open>#onSectionSelect\<close> never read \<^verbatim>\<open>#isLocked\<close>, and the
  class \<^verbatim>\<open>unrawheel--locked\<close>, which would keep the pointer away, is only set when
  \<^verbatim>\<open>toggleLockWheel\<close> changes the lock.
\<close>

theorem locked_click_dispatches:
  "construct no_json static_attrs =
     Inr (initial_wheel\<lparr>staticSectionCount := True, sectionCount := 11\<rparr>)
   \<and> setSections no_json (JArr (take 3 example_data))
       (initial_wheel\<lparr>staticSectionCount := True, sectionCount := 11\<rparr>) =
       (Inr (), wheel_after static_attrs (take 3 example_data))
   \<and> isLocked (wheel_after static_attrs (take 3 example_data))
   \<and> \<not> svg_locked (wheel_after static_attrs (take 3 example_data))
   \<and> onKeyPress ''a'' (wheel_after static_attrs (take 3 example_data))
       = (Inr None, wheel_after static_attrs (take 3 example_data))
   \<and> fst (onSectionClick 0 (wheel_after static_attrs (take 3 example_data)))
       = Inr (Some (JStr ''value_1''))"
proof -
  have "fst (onSectionClick 0 (wheel_after static_attrs (take 3 example_data)))
       = Inr (Some (JStr ''value_1''))"
    by (simp add: wheel_after_def construct_static eval_defs onSectionClick_def onSectionSelect_def
        selectedValue_def)
  moreover have "onKeyPress ''a'' (wheel_after static_attrs (take 3 example_data))
       = (Inr None, wheel_after static_attrs (take 3 example_data))"
    using example_static_fields(5) by (simp add: onKeyPress_def)
  ultimately show ?thesis
    using construct_static example_static_run example_static_fields(5,6) by simp
qed

subsection \<open>Key presses before any data\<close>

text \<open>
  Claim C10. An element constructed without a \<^verbatim>\<open>data\<close> attribute is locked and has neither
  data nor section elements. Once it is unlocked by \<^verbatim>\<open>toggleLockWheel(false)\<close>, every key-down
  event raises the engine's TypeError and changes nothing: Backspace selects index \<open>-1\<close> of
  the empty element array, which passes for the back section and then has no element to
  read \<^verbatim>\<open>classList\<close> from, and every other key calls \<^verbatim>\<open>findIndex\<close> on \<^verbatim>\<open>null\<close>.
\<close>

theorem keydown_before_data_raises:
  assumes "construct parse a = Inr w" and "attr_data a = None"
  shows "isLocked w
       \<and> onKeyPress k (toggleLockWheel False w) = (Inl HostTypeError, toggleLockWheel False w)"
proof -
  from construct_no_data [OF assms] have w: "data w = None" "elements w = []" "isLocked w"
    by simp_all
  then have "data (toggleLockWheel False w) = None" "elements (toggleLockWheel False w) = []"
    "\<not> isLocked (toggleLockWheel False w)"
    by (simp_all add: toggleLockWheel_def)
  then have "onKeyPress k (toggleLockWheel False w)
      = (Inl HostTypeError, toggleLockWheel False w)"
    by (simp add: onKeyPress_def onSectionSelect_def js_index_def)
  with w(3) show ?thesis by simp
qed

theorem keydown_before_data_raises_witness:
  "onKeyPress ''Backspace''
     (toggleLockWheel False (initial_wheel\<lparr>staticSectionCount := True, sectionCount := 11\<rparr>))
     = (Inl HostTypeError,
        toggleLockWheel False (initial_wheel\<lparr>staticSectionCount := True, sectionCount := 11\<rparr>))
   \<and> onKeyPress ''a''
     (toggleLockWheel False (initial_wheel\<lparr>staticSectionCount := True, sectionCount := 11\<rparr>))
     = (Inl HostTypeError,
        toggleLockWheel False (initial_wheel\<lparr>staticSectionCount := True, sectionCount := 11\<rparr>))"
proof -
  have a: "attr_data static_attrs = None" by (simp add: static_attrs_def)
  from keydown_before_data_raises [OF construct_static a, of "''Backspace''"]
    keydown_before_data_raises [OF construct_static a, of "''a''"]
  show ?thesis by simp
qed

subsection \<open>The fallback to \<^verbatim>\<open>indexToDefaultKey\<close>\<close>

lemma parse_key_None:
  assumes "parseUnraWheelData item i = Inr s"
  shows "sec_key s = None \<longleftrightarrow> own_prop item ''key'' = None \<and> 36 \<le> i"
  using assms unfolding parseUnraWheelData_def
  by (auto simp: js_index_def defaultKeys_def split: option.splits jsval.splits sum.splits if_splits)

lemma setContent_keeps:
  assumes "setContent st i = (r, st')"
  shows "data st' = data st \<and> sectionCount st' = sectionCount st"
proof -
  from setContent_frame [OF assms] obtain els where "st' = st\<lparr>elements := els\<rparr>" by blast
  then show ?thesis by simp
qed

lemma setContent_undefined_key:
  assumes "data st = Some ds" and "j < length ds" and "sec_key (ds ! j) = None"
    and "int j \<noteq> sectionCount st - 1"
  shows "\<exists>st'. setContent st j = (Inl HostTypeError, st')"
  using assms unfolding setContent_def indexToDefaultKey_def this_defaultKeys_def
  by (auto simp: Let_def split: option.splits)

lemma setContents_undefined_key:
  assumes "j \<in> set js" and "data st = Some ds" and "j < length ds"
    and "sec_key (ds ! j) = None" and "int j \<noteq> sectionCount st - 1"
  shows "\<exists>st'. setContents js st = (Inl HostTypeError, st')"
  using assms
proof (induction js arbitrary: st)
  case Nil
  then show ?case by simp
next
  case (Cons i rest)
  obtain r1 st1 where s1: "setContent st i = (r1, st1)" by (cases "setContent st i")
  show ?case
  proof (cases r1)
    case (Inl e)
    with s1 setContent_error [of st i e st1] show ?thesis by simp
  next
    case (Inr u)
    have "i \<noteq> j"
    proof
      assume "i = j"
      with setContent_undefined_key [OF Cons.prems(2-5)] s1 Inr show False by auto
    qed
    with Cons.prems(1) have "j \<in> set rest" by simp
    moreover from setContent_keeps [OF s1] Cons.prems
    have "data st1 = Some ds" "int j \<noteq> sectionCount st1 - 1" by simp_all
    ultimately obtain st' where "setContents rest st1 = (Inl HostTypeError, st')"
      using Cons.IH [of st1] Cons.prems(3,4) by blast
    with s1 Inr show ?thesis by simp
  qed
qed

lemma render_undefined_key:
  assumes "data st = Some ds" and "j < length ds" and "sec_key (ds ! j) = None"
    and "int (length ds) \<le> sectionCount st - 1"
  shows "\<exists>st'. render b st = (Inl HostTypeError, st')"
proof -
  have j: "int j \<noteq> sectionCount st - 1" "j \<in> set [0..<nat (sectionCount st)]"
    using assms(2,4) by auto
  show ?thesis
  proof (cases b)
    case False
    with setContents_undefined_key [OF j(2) assms(1-3) j(1)] show ?thesis
      by (simp add: render_def)
  next
    case True
    obtain r1 st1 where s1: "rebuild st = (r1, st1)" by (cases "rebuild st")
    show ?thesis
    proof (cases r1)
      case (Inl e)
      with s1 rebuild_error [of st e st1] True show ?thesis by (simp add: render_def)
    next
      case (Inr u)
      from rebuild_frame [OF s1] obtain els p where
        "st1 = st\<lparr>elements := els, sectionPointerElem := p\<rparr>" by blast
      then have "data st1 = Some ds" "sectionCount st1 = sectionCount st"
        using assms(1) by simp_all
      with setContents_undefined_key [of j "[0..<nat (sectionCount st1)]" st1 ds] j assms(2,3)
      obtain st' where "setContents [0..<nat (sectionCount st1)] st1 = (Inl HostTypeError, st')"
        by auto
      with s1 Inr True show ?thesis by (simp add: render_def)
    qed
  qed
qed

lemma map_items_keyless: "\<exists>ds. map_items (replicate n keyless_item) k = Inr ds"
proof (induction n arbitrary: k)
  case 0
  then show ?case by simp
next
  case (Suc n)
  have "\<exists>s. parseUnraWheelData keyless_item k = Inr s"
    by (simp add: parseUnraWheelData_def keyless_item_def)
  with Suc [of "Suc k"] show ?case by auto
qed

text \<open>
  Claim C9. \<^verbatim>\<open>indexToDefaultKey\<close> raises the engine's TypeError for every index, because it
  takes the length of \<^verbatim>\<open>this.defaultKeys\<close>, which is \<^verbatim>\<open>undefined\<close>. Hence for a list of more
  than 36 items in which an item at an index from 36 on has no \<^verbatim>\<open>key\<close> (its key defaults to
  \<^verbatim>\<open>undefined\<close>, the table of default keys being exhausted), the validation passes and the
  rendering raises, whether it rebuilds the sections or not, and so does \<^verbatim>\<open>setSections\<close>.
\<close>

theorem default_key_fallback_raises:
  "indexToDefaultKey i = Inl HostTypeError
   \<and> (36 < length items \<and> 36 \<le> j \<and> j < length items \<and> own_prop (items ! j) ''key'' = None
        \<and> setData parse (JArr items) st = (Inr u, st1)
      \<longrightarrow> (\<exists>st2. render b st1 = (Inl HostTypeError, st2))
        \<and> (\<exists>st2. setSections parse (JArr items) st = (Inl HostTypeError, st2)))"
proof -
  have 1: "indexToDefaultKey i = Inl HostTypeError"
    by (simp add: indexToDefaultKey_def this_defaultKeys_def)
  have 2: "(\<exists>st2. render b st1 = (Inl HostTypeError, st2))
        \<and> (\<exists>st2. setSections parse (JArr items) st = (Inl HostTypeError, st2))"
    if h: "36 \<le> j" "j < length items" "own_prop (items ! j) ''key'' = None"
       "setData parse (JArr items) st = (Inr u, st1)"
  proof -
    from setData_ok [OF h(4)] obtain ds where
      d: "map_items items 0 = Inr ds"
         "staticSectionCount st \<longrightarrow> int (length items) \<le> sectionCount st - 1"
         "st1 = commitData st ds"
      by auto
    have len: "length ds = length items" using d(1) by (rule map_items_length)
    from map_items_nth [OF d(1) h(2)] have "parseUnraWheelData (items ! j) j = Inr (ds ! j)"
      by simp
    with parse_key_None [of "items ! j" j "ds ! j"] h(1,3) have k: "sec_key (ds ! j) = None"
      by simp
    have dd: "data st1 = Some ds" "int (length ds) \<le> sectionCount st1 - 1"
      using d(2,3) len by (auto simp: commitData_fields)
    have r: "\<exists>st2. render b' st1 = (Inl HostTypeError, st2)" for b'
      using render_undefined_key [OF dd(1) _ k dd(2)] h(2) len by simp
    from r [of "(if data st = None then 0 else sectionCount st) \<noteq> sectionCount st1"]
    have "\<exists>st2. setSections parse (JArr items) st = (Inl HostTypeError, st2)"
      using h(4) by (auto simp: setSections_def Let_def)
    with r [of b] show ?thesis by blast
  qed
  from 1 2 show ?thesis by blast
qed

theorem default_key_fallback_raises_witness:
  "indexToDefaultKey 36 = Inl HostTypeError
   \<and> (\<exists>st2. setSections no_json (JArr (replicate 37 keyless_item)) initial_wheel
             = (Inl HostTypeError, st2))"
proof -
  let ?items = "replicate 37 keyless_item"
  have a: "36 < length ?items" "(36::nat) \<le> 36" "36 < length ?items"
    "own_prop (?items ! 36) ''key'' = None"
    by (simp_all add: keyless_item_def)
  obtain ds where "map_items ?items 0 = Inr ds" using map_items_keyless by blast
  then have "fst (setData no_json (JArr ?items) initial_wheel) = Inr ()"
    by (simp add: setData_def initial_wheel_def)
  then have b: "setData no_json (JArr ?items) initial_wheel
      = (Inr (), snd (setData no_json (JArr ?items) initial_wheel))"
    by (simp add: prod_eq_iff)
  from default_key_fallback_raises [of 36 ?items 36 no_json initial_wheel "()"
      "snd (setData no_json (JArr ?items) initial_wheel)" True] a b
  show ?thesis by blast
qed

subsection \<open>Errors of \<^verbatim>\<open>setSections\<close>\<close>









subsection \<open>The empty key\<close>

lemma parse_empty_key:
  "own_prop item ''key'' = Some (JStr []) \<Longrightarrow> \<exists>e. parseUnraWheelData item i = Inl e"
  unfolding parseUnraWheelData_def
  by (auto split: option.splits jsval.splits sum.splits)

lemma map_items_empty_key:
  "item \<in> set items \<Longrightarrow> own_prop item ''key'' = Some (JStr []) \<Longrightarrow>
     \<exists>e. map_items items k = Inl e"
proof (induction items arbitrary: k)
  case Nil
  then show ?case by simp
next
  case (Cons x xs)
  show ?case
  proof (cases "parseUnraWheelData x k")
    case (Inl e)
    then show ?thesis by simp
  next
    case (Inr s)
    with parse_empty_key [of x k] Cons.prems have "item \<in> set xs" by auto
    from Cons.IH [OF this Cons.prems(2), of "Suc k"] Inr show ?thesis by auto
  qed
qed


text \<open>
  Claim C4 says that a list with an item whose \<^verbatim>\<open>key\<close> is the empty string is normalized
  successfully. \<^verbatim>\<open>#setData\<close> throws for every \<^verbatim>\<open>key\<close> that is not a string of length 1: on a
  fresh element with \<^verbatim>\<open>dynamic-section-count\<close>, the list of an item without key and an item
  with the empty key raises "'key' in item at index 1 must be a string of length 1".
\<close>

theorem empty_key_counterexample:
  "setSections no_json (JArr [keyless_item, empty_key_item]) initial_wheel
     = (Inl (KeyInvalid 1), initial_wheel)"
  by (simp add: setSections_def setData_def parseUnraWheelData_def keyless_item_def
      empty_key_item_def initial_wheel_def)

text \<open>
  Claim C4, amended. A list (given as an array or as a JSON string) that contains an item
  whose \<^verbatim>\<open>key\<close> is the empty string is rejected: \<^verbatim>\<open>#setData\<close> and \<^verbatim>\<open>setSections\<close> raise and
  leave the wheel as it is, so that no stored section comes to have an empty key through
  them. Were a stored section to have the empty key, it would be unselectable: selecting
  its index (not the last element's) directly or by a click returns without an event and
  changes nothing, and so does a press, on an unlocked wheel, of a key that
  \<^verbatim>\<open>findIndex\<close> resolves to it.
\<close>

theorem empty_key_rejected:
  "(item \<in> set items \<and> own_prop item ''key'' = Some (JStr [])
      \<and> (d = JArr items \<or> (\<exists>s. d = JStr s \<and> parse s = Some (JArr items)))
    \<longrightarrow> (\<exists>e. setData parse d st = (Inl e, st) \<and> setSections parse d st = (Inl e, st)))
   \<and> (data st = Some ds \<and> 0 \<le> i \<and> i < int (length ds) \<and> sec_key (ds ! nat i) = Some []
      \<and> i \<noteq> int (length (elements st)) - 1
    \<longrightarrow> onSectionSelect i st = (Inr None, st) \<and> onSectionClick i st = (Inr None, st)
      \<and> (\<not> isLocked st \<and> k \<noteq> ''Backspace''
           \<and> findIndex (\<lambda>item. sec_key item = Some k) ds = Some (nat i)
         \<longrightarrow> onKeyPress k st = (Inr None, st)))"
proof -
  have 1: "\<exists>e. setData parse d st = (Inl e, st) \<and> setSections parse d st = (Inl e, st)"
    if h: "item \<in> set items" "own_prop item ''key'' = Some (JStr [])"
      "d = JArr items \<or> (\<exists>s. d = JStr s \<and> parse s = Some (JArr items))"
  proof -
    from map_items_empty_key [OF h(1,2)] obtain e where e: "map_items items 0 = Inl e" by blast
    from h(1) have ne: "items \<noteq> []" by auto
    from h(3) e ne have "\<exists>e'. setData parse d st = (Inl e', st)"
      by (auto simp: setData_def)
    then obtain e' where "setData parse d st = (Inl e', st)" by blast
    then show ?thesis by (auto simp: setSections_def)
  qed
  have 2: "onSectionSelect i st = (Inr None, st)"
    if h: "data st = Some ds" "0 \<le> i" "i < int (length ds)" "sec_key (ds ! nat i) = Some []"
      "i \<noteq> int (length (elements st)) - 1"
    using h by (simp add: onSectionSelect_def js_index_def)
  have 3: "onKeyPress k st = (Inr None, st)"
    if h: "data st = Some ds" "0 \<le> i" "i < int (length ds)" "sec_key (ds ! nat i) = Some []"
      "i \<noteq> int (length (elements st)) - 1"
      "\<not> isLocked st" "k \<noteq> ''Backspace''"
      "findIndex (\<lambda>item. sec_key item = Some k) ds = Some (nat i)"
    using h 2 [OF h(1-5)] by (simp add: onKeyPress_def)
  from 1 2 3 show ?thesis by (simp add: onSectionClick_def)
qed

theorem empty_key_rejected_witness:
  "(\<exists>e. setSections no_json (JArr [keyless_item, empty_key_item])
           (wheel_after static_attrs (take 3 example_data))
         = (Inl e, wheel_after static_attrs (take 3 example_data)))
   \<and> onSectionClick 0
       (initial_wheel\<lparr>data := Some [\<lparr>sec_value = JNum 1, sec_text = ''option'',
                                      sec_image = None, sec_key = Some []\<rparr>],
                      sectionCount := 2, isLocked := False,
                      elements := [newElement initial_wheel 0, newElement initial_wheel 1]\<rparr>)
     = (Inr None,
        initial_wheel\<lparr>data := Some [\<lparr>sec_value = JNum 1, sec_text = ''option'',
                                      sec_image = None, sec_key = Some []\<rparr>],
                      sectionCount := 2, isLocked := False,
                      elements := [newElement initial_wheel 0, newElement initial_wheel 1]\<rparr>)
   \<and> onKeyPress []
       (initial_wheel\<lparr>data := Some [\<lparr>sec_value = JNum 1, sec_text = ''option'',
                                      sec_image = None, sec_key = Some []\<rparr>],
                      sectionCount := 2, isLocked := False,
                      elements := [newElement initial_wheel 0, newElement initial_wheel 1]\<rparr>)
     = (Inr None,
        initial_wheel\<lparr>data := Some [\<lparr>sec_value = JNum 1, sec_text = ''option'',
                                      sec_image = None, sec_key = Some []\<rparr>],
                      sectionCount := 2, isLocked := False,
                      elements := [newElement initial_wheel 0, newElement initial_wheel 1]\<rparr>)"
proof -
  let ?ds = "[\<lparr>sec_value = JNum 1, sec_text = ''option'', sec_image = None, sec_key = Some []\<rparr>]"
  let ?w = "initial_wheel\<lparr>data := Some ?ds, sectionCount := 2, isLocked := False,
                      elements := [newElement initial_wheel 0, newElement initial_wheel 1]\<rparr>"
  have a: "empty_key_item \<in> set [keyless_item, empty_key_item]"
    "own_prop empty_key_item ''key'' = Some (JStr [])"
    by (simp_all add: empty_key_item_def)
  from empty_key_rejected [of empty_key_item "[keyless_item, empty_key_item]"
      "JArr [keyless_item, empty_key_item]" no_json
      "wheel_after static_attrs (take 3 example_data)"] a
  have 1: "\<exists>e. setSections no_json (JArr [keyless_item, empty_key_item])
           (wheel_after static_attrs (take 3 example_data))
         = (Inl e, wheel_after static_attrs (take 3 example_data))"
    by blast
  have b: "data ?w = Some ?ds" "(0::int) \<le> 0" "0 < int (length ?ds)"
    "sec_key (?ds ! nat 0) = Some []" "0 \<noteq> int (length (elements ?w)) - 1"
    "\<not> isLocked ?w" "[] \<noteq> ''Backspace''"
    "findIndex (\<lambda>item. sec_key item = Some []) ?ds = Some (nat 0)"
    by simp_all
  from empty_key_rejected [of _ _ _ _ ?w ?ds 0 "[]"] b
  have 2: "onSectionClick 0 ?w = (Inr None, ?w)" and 3: "onKeyPress [] ?w = (Inr None, ?w)"
    by blast+
  from 1 2 3 show ?thesis by blast
qed

subsection \<open>The arcs\<close>

lemma setData_angles:
  assumes "setData parse d st = (Inr u, st')"
  shows "1 \<le> sectionCount st'"
    and "angleStep st' = num_div (num_mul 2 Math_PI) (of_int (sectionCount st'))"
    and "angleOffset st' = num_add Math_PI (num_div (angleStep st') 2)"
proof -
  from setData_sectionCount_ge2 [OF assms] show "1 \<le> sectionCount st'" by simp
  from setData_ok [OF assms] obtain ds where "st' = commitData st ds" by blast
  then show "angleStep st' = num_div (num_mul 2 Math_PI) (of_int (sectionCount st'))"
    and "angleOffset st' = num_add Math_PI (num_div (angleStep st') 2)"
    by (simp_all only: commitData_angles)
qed

lemma example_three_fields:
  "sectionCount (wheel_after dynamic_attrs (take 2 example_data)) = 3"
  "angleStep (wheel_after dynamic_attrs (take 2 example_data)) = num_div (num_mul 2 Math_PI) 3"
  "angleOffset (wheel_after dynamic_attrs (take 2 example_data))
     = num_add Math_PI (num_div (num_div (num_mul 2 Math_PI) 3) 2)"
  by (simp_all add: wheel_after_def construct_dynamic eval_defs)

lemma example_three_angles:
  "angleStep (wheel_after dynamic_attrs (take 2 example_data)) = 4716158501352293 / 2251799813685248"
  "startAngle (wheel_after dynamic_attrs (take 2 example_data)) 0 = 4716158501352293 / 1125899906842624"
  "endAngle (wheel_after dynamic_attrs (take 2 example_data)) 0 = 884279719003555 / 140737488355328"
  "startAngle (wheel_after dynamic_attrs (take 2 example_data)) 1 = 884279719003555 / 140737488355328"
  "endAngle (wheel_after dynamic_attrs (take 2 example_data)) 1 = 4716158501352293 / 562949953421312"
  "startAngle (wheel_after dynamic_attrs (take 2 example_data)) 2 = 4716158501352293 / 562949953421312"
  "endAngle (wheel_after dynamic_attrs (take 2 example_data)) 2 = 2947599063345183 / 281474976710656"
proof -
  have f1: "num_mul (2) (884279719003555 / 281474976710656) = 884279719003555 / 140737488355328"
    by (simp add: num_mul_def fl_eq [where e = "- 50"] num_eval)
  have f2: "num_div (884279719003555 / 140737488355328) (3) = 4716158501352293 / 2251799813685248"
    by (simp add: num_div_def fl_eq [where e = "- 51"] num_eval)
  have f3: "num_div (4716158501352293 / 2251799813685248) (2) = 4716158501352293 / 4503599627370496"
    by (simp add: num_div_def fl_eq [where e = "- 52"] num_eval)
  have f4: "num_add (884279719003555 / 281474976710656) (4716158501352293 / 4503599627370496) = 4716158501352293 / 1125899906842624"
    by (simp add: num_add_def fl_eq [where e = "- 50"] num_eval)
  have f6: "num_add (0) (4716158501352293 / 1125899906842624) = 4716158501352293 / 1125899906842624"
    by (simp add: num_add_def fl_eq [where e = "- 50"] num_eval)
  have f7: "num_mul (1) (4716158501352293 / 2251799813685248) = 4716158501352293 / 2251799813685248"
    by (simp add: num_mul_def fl_eq [where e = "- 51"] num_eval)
  have f8: "num_add (4716158501352293 / 2251799813685248) (4716158501352293 / 1125899906842624) = 884279719003555 / 140737488355328"
    by (simp add: num_add_def fl_eq [where e = "- 50"] num_eval)
  have f9: "num_mul (2) (4716158501352293 / 2251799813685248) = 4716158501352293 / 1125899906842624"
    by (simp add: num_mul_def fl_eq [where e = "- 50"] num_eval)
  have f10: "num_add (4716158501352293 / 1125899906842624) (4716158501352293 / 1125899906842624) = 4716158501352293 / 562949953421312"
    by (simp add: num_add_def fl_eq [where e = "- 49"] num_eval)
  have f11: "num_mul (3) (4716158501352293 / 2251799813685248) = 884279719003555 / 140737488355328"
    by (simp add: num_mul_def fl_eq [where e = "- 50"] num_eval)
  have f12: "num_add (884279719003555 / 140737488355328) (4716158501352293 / 1125899906842624) = 2947599063345183 / 281474976710656"
    by (simp add: num_add_def fl_eq [where e = "- 49"] num_eval)
  have f5: "num_mul 0 (4716158501352293 / 2251799813685248) = 0"
    by (simp add: num_mul_def fl_0)
  have n: "of_nat (0::nat) = (0::rat)" "of_nat (0 + 1) = (1::rat)" "of_nat (1::nat) = (1::rat)"
    "of_nat (1 + 1) = (2::rat)" "of_nat (2::nat) = (2::rat)" "of_nat (2 + 1) = (3::rat)"
    by simp_all
  note defs = startAngle_def endAngle_def example_three_fields(2,3) Math_PI_def n
  show "angleStep (wheel_after dynamic_attrs (take 2 example_data)) = 4716158501352293 / 2251799813685248"
    unfolding defs f1 f2 by (rule refl)
  show "startAngle (wheel_after dynamic_attrs (take 2 example_data)) 0 = 4716158501352293 / 1125899906842624"
    unfolding defs f1 f2 f3 f4 f5 f6 by (rule refl)
  show "endAngle (wheel_after dynamic_attrs (take 2 example_data)) 0 = 884279719003555 / 140737488355328"
    unfolding defs f1 f2 f3 f4 f7 f8 by (rule refl)
  show "startAngle (wheel_after dynamic_attrs (take 2 example_data)) 1 = 884279719003555 / 140737488355328"
    unfolding defs f1 f2 f3 f4 f7 f8 by (rule refl)
  show "endAngle (wheel_after dynamic_attrs (take 2 example_data)) 1 = 4716158501352293 / 562949953421312"
    unfolding defs f1 f2 f3 f4 f9 f10 by (rule refl)
  show "startAngle (wheel_after dynamic_attrs (take 2 example_data)) 2 = 4716158501352293 / 562949953421312"
    unfolding defs f1 f2 f3 f4 f9 f10 by (rule refl)
  show "endAngle (wheel_after dynamic_attrs (take 2 example_data)) 2 = 2947599063345183 / 281474976710656"
    unfolding defs f1 f2 f3 f4 f11 f12 by (rule refl)
qed

text \<open>
  Claim C7 says that every span equals \<^verbatim>\<open>angleStep\<close> and that the spans sum to \<open>2\<pi>\<close>
  exactly. The angles are doubles: on the wheel of two items (three sections), the first
  arc ends at \<open>884279719003555 / 2^47\<close> and starts at \<open>4716158501352293 / 2^50\<close>, which is
  one unit in the last place more than \<^verbatim>\<open>angleStep\<close> \<open>= 4716158501352293 / 2^51\<close> apart, and
  the three spans sum to one unit in the last place less than \<^verbatim>\<open>2 * Math.PI\<close>.
\<close>

theorem arcs_rounding_counterexample:
  "sectionCount (wheel_after dynamic_attrs (take 2 example_data)) = 3
   \<and> endAngle (wheel_after dynamic_attrs (take 2 example_data)) 0
       - startAngle (wheel_after dynamic_attrs (take 2 example_data)) 0
     \<noteq> angleStep (wheel_after dynamic_attrs (take 2 example_data))
   \<and> (endAngle (wheel_after dynamic_attrs (take 2 example_data)) 0
        - startAngle (wheel_after dynamic_attrs (take 2 example_data)) 0)
     + (endAngle (wheel_after dynamic_attrs (take 2 example_data)) 1
        - startAngle (wheel_after dynamic_attrs (take 2 example_data)) 1)
     + (endAngle (wheel_after dynamic_attrs (take 2 example_data)) 2
        - startAngle (wheel_after dynamic_attrs (take 2 example_data)) 2)
     \<noteq> 2 * Math_PI"
  unfolding example_three_angles example_three_fields(1) Math_PI_def by simp

text \<open>
  Claim C7, amended. On every wheel with \<open>n \<ge> 1\<close> sections whose \<^verbatim>\<open>angleStep\<close> and
  \<^verbatim>\<open>angleOffset\<close> are the ones \<^verbatim>\<open>#setData\<close> computes for \<open>n\<close> (as on every wheel that has
  data, by \<open>wheel_inv\<close>), every arc ends exactly where the next one starts, each arc's span
  differs from \<^verbatim>\<open>angleStep\<close> by at most \<open>2^-47\<close>, and the sum of the \<open>n\<close> spans differs
  from \<^verbatim>\<open>2 * Math.PI\<close> by at most \<open>2^-47\<close>.
\<close>

theorem arcs_tile_up_to_rounding:
  assumes "1 \<le> sectionCount st"
    and "angleStep st = num_div (num_mul 2 Math_PI) (of_int (sectionCount st))"
    and "angleOffset st = num_add Math_PI (num_div (angleStep st) 2)"
  shows "endAngle st i = startAngle st (i + 1)
       \<and> (int i < sectionCount st \<longrightarrow>
            \<bar>endAngle st i - startAngle st i - angleStep st\<bar> \<le> 1 / 2 ^ 47)
       \<and> \<bar>(\<Sum>k<nat (sectionCount st). endAngle st k - startAngle st k) - 2 * Math_PI\<bar>
            \<le> 1 / 2 ^ 47"
proof -
  have 1: "endAngle st k = startAngle st (Suc k)" for k
    by (simp add: endAngle_def startAngle_def)
  have 2: "\<bar>endAngle st i - startAngle st i - angleStep st\<bar> \<le> 1 / 2 ^ 47"
    if "int i < sectionCount st"
    using span_rounding [OF assms(1) that assms(2,3)]
    by (simp add: endAngle_def startAngle_def)
  have "(\<Sum>k<nat (sectionCount st). endAngle st k - startAngle st k)
      = startAngle st (nat (sectionCount st)) - startAngle st 0"
    unfolding 1 by (rule sum_lessThan_telescope)
  with extent_rounding [OF assms]
  have 3: "\<bar>(\<Sum>k<nat (sectionCount st). endAngle st k - startAngle st k) - 2 * Math_PI\<bar>
            \<le> 1 / 2 ^ 47"
    by (simp add: startAngle_def)
  from 1 [of i] 2 3 show ?thesis by simp
qed

theorem arcs_tile_up_to_rounding_witness:
  "endAngle (wheel_after dynamic_attrs (take 2 example_data)) 0
     = startAngle (wheel_after dynamic_attrs (take 2 example_data)) 1
   \<and> \<bar>endAngle (wheel_after dynamic_attrs (take 2 example_data)) 0
        - startAngle (wheel_after dynamic_attrs (take 2 example_data)) 0
        - angleStep (wheel_after dynamic_attrs (take 2 example_data))\<bar> \<le> 1 / 2 ^ 47
   \<and> \<bar>(\<Sum>k<3. endAngle (wheel_after dynamic_attrs (take 2 example_data)) k
                - startAngle (wheel_after dynamic_attrs (take 2 example_data)) k)
        - 2 * Math_PI\<bar> \<le> 1 / 2 ^ 47"
proof -
  let ?w = "wheel_after dynamic_attrs (take 2 example_data)"
  have a: "1 \<le> sectionCount ?w"
    "angleStep ?w = num_div (num_mul 2 Math_PI) (of_int (sectionCount ?w))"
    "angleOffset ?w = num_add Math_PI (num_div (angleStep ?w) 2)"
    by (simp_all add: example_three_fields)
  have b: "int 0 < sectionCount ?w" "nat (sectionCount ?w) = 3"
    by (simp_all add: example_three_fields(1))
  note t = arcs_tile_up_to_rounding [OF a, of 0]
  from t have "endAngle ?w 0 = startAngle ?w (0 + 1)" by blast
  then have 1: "endAngle ?w 0 = startAngle ?w 1" by simp
  from t b(1) have 2: "\<bar>endAngle ?w 0 - startAngle ?w 0 - angleStep ?w\<bar> \<le> 1 / 2 ^ 47"
    by blast
  from t have "\<bar>(\<Sum>k<nat (sectionCount ?w). endAngle ?w k - startAngle ?w k) - 2 * Math_PI\<bar>
            \<le> 1 / 2 ^ 47"
    by blast
  then have 3: "\<bar>(\<Sum>k<3. endAngle ?w k - startAngle ?w k) - 2 * Math_PI\<bar> \<le> 1 / 2 ^ 47"
    unfolding b(2) .
  from 1 2 3 show ?thesis by blast
qed

end
